theory Spec2Isabelle
  imports Main "HOL-Library.Char_ord" "HOL-Library.List_Lexorder"
begin

section \<open>CyberDrive: the bounded concurrent batch dispatcher and its helper scripts\<close>

text \<open>
  The inference scripts share one shape: \<^verbatim>\<open>process_batch\<close> creates one coroutine
  \<^verbatim>\<open>process_question(q['id'], q['question'])\<close> per row and awaits
  \<^verbatim>\<open>asyncio.gather(*tasks)\<close>; every coroutine body is
  \<^verbatim>\<open>async with self.semaphore: try: ... except Exception as e: return {...}\<close>.
  The embedding keeps that shape. A coroutine is cut at its suspension points into the
  pieces that the event loop runs without interruption; the event loop is a function of
  an explicit schedule, so that a statement about every schedule is a statement about
  every order in which the provider may answer.
\<close>

subsection \<open>Python values\<close>

text \<open>A \<^verbatim>\<open>dict\<close> with string keys and string values, in insertion order.\<close>

type_synonym dict = "(string \<times> string) list"

text \<open>
  The exceptions below are all subclasses of \<^verbatim>\<open>Exception\<close>, which is what the handlers
  of the scripts catch. \<^verbatim>\<open>str(e)\<close> is the message; for a \<^verbatim>\<open>KeyError\<close> it is the
  \<^verbatim>\<open>repr\<close> of the key.
\<close>

datatype exn =
    FileNotFoundError string
  | OSError string
  | IndexError string
  | KeyError string
  | ValueError string
  | TypeError string
  | AttributeError string
  | ProviderError string

fun str :: "exn \<Rightarrow> string" where
  "str (FileNotFoundError m) = m"
| "str (OSError m) = m"
| "str (IndexError m) = m"
| "str (KeyError k) = [CHR 0x27] @ k @ [CHR 0x27]"
| "str (ValueError m) = m"
| "str (TypeError m) = m"
| "str (AttributeError m) = m"
| "str (ProviderError m) = m"

text \<open>\<^verbatim>\<open>q[key]\<close> on a dict: the value, or \<^verbatim>\<open>KeyError\<close>.\<close>

definition getitem :: "dict \<Rightarrow> string \<Rightarrow> exn + string" where
  "getitem q k = (case map_of q k of None \<Rightarrow> Inl (KeyError k) | Some v \<Rightarrow> Inr v)"

subsection \<open>The concurrency gate and the event loop\<close>

text \<open>
  What a piece of a coroutine ends with: it returns its result dict, or it suspends at an
  \<^verbatim>\<open>await\<close> and leaves a continuation \<open>'k\<close> behind.
\<close>

datatype 'k outcome = Return dict | Suspend 'k

text \<open>
  A task of \<^verbatim>\<open>asyncio.gather\<close>: created with its two arguments and not yet inside
  \<^verbatim>\<open>async with self.semaphore\<close>; suspended inside it, holding a permit; or done.
\<close>

datatype 'k task = Pending string string | Suspended 'k | Finished dict

text \<open>
  The state of a batch run: the semaphore's counter \<^verbatim>\<open>_value\<close>, the tasks in the order
  \<^verbatim>\<open>process_batch\<close> appended them, and \<open>world\<close>, the mutable state the bodies touch
  (the requests handed to the provider so far; \<^verbatim>\<open>self.request_count\<close> in the
  cooldown variant).
\<close>

record ('k, 'w) loop =
  sem_value :: nat
  tasks :: "'k task list"
  world :: 'w

text \<open>\<^verbatim>\<open>asyncio.Semaphore\<close>: \<^verbatim>\<open>locked()\<close>, \<^verbatim>\<open>acquire()\<close> on its fast path, \<^verbatim>\<open>release()\<close>.\<close>

definition locked :: "('k, 'w) loop \<Rightarrow> bool" where
  "locked s = (sem_value s = 0)"

definition acquire :: "('k, 'w) loop \<Rightarrow> ('k, 'w) loop" where
  "acquire s = s\<lparr>sem_value := sem_value s - 1\<rparr>"

definition release :: "('k, 'w) loop \<Rightarrow> ('k, 'w) loop" where
  "release s = s\<lparr>sem_value := sem_value s + 1\<rparr>"

text \<open>
  The two pieces of a body. \<open>b\<close>, the head, is the code between entering
  \<^verbatim>\<open>async with self.semaphore\<close> and the first \<^verbatim>\<open>await\<close> that suspends (or the
  \<^verbatim>\<open>return\<close>, when none does); \<open>r\<close>, the tail, is the code after that \<^verbatim>\<open>await\<close> up to the
  \<^verbatim>\<open>return\<close>. Both get the position of the task in the batch, which names the call
  instance towards the provider.
\<close>

type_synonym ('k, 'w) head_piece = "nat \<Rightarrow> string \<Rightarrow> string \<Rightarrow> 'w \<Rightarrow> 'k outcome \<times> 'w"
type_synonym ('k, 'w) tail_piece = "nat \<Rightarrow> 'k \<Rightarrow> 'w \<Rightarrow> dict \<times> 'w"

text \<open>
  One uninterrupted run of task \<open>i\<close>. A pending task enters \<^verbatim>\<open>async with\<close>: it
  acquires a permit (it stays where it is while the semaphore is locked), runs the head,
  and either suspends with the permit or returns, and then \<^verbatim>\<open>__aexit__\<close> releases.
  A suspended task runs the tail to its \<^verbatim>\<open>return\<close>, and \<^verbatim>\<open>__aexit__\<close> releases.
\<close>

definition step :: "('k, 'w) head_piece \<Rightarrow> ('k, 'w) tail_piece \<Rightarrow> nat \<Rightarrow> ('k, 'w) loop \<Rightarrow> ('k, 'w) loop" where
  "step b r i s =
     (if i < length (tasks s) then
        (case tasks s ! i of
           Pending video_id question \<Rightarrow>
             if locked s then s
             else
               (let s1 = acquire s in
                case b i video_id question (world s1) of
                  (Suspend k, w) \<Rightarrow> s1\<lparr>tasks := (tasks s1)[i := Suspended k], world := w\<rparr>
                | (Return d, w) \<Rightarrow>
                    release (s1\<lparr>tasks := (tasks s1)[i := Finished d], world := w\<rparr>))
         | Suspended k \<Rightarrow>
             (case r i k (world s) of
                (d, w) \<Rightarrow> release (s\<lparr>tasks := (tasks s)[i := Finished d], world := w\<rparr>))
         | Finished d \<Rightarrow> s)
      else s)"

text \<open>
  Task \<open>i\<close> can run: it waits for a permit and one is free, or it is suspended at an
  \<^verbatim>\<open>await\<close> (whose completion may come at any time).
\<close>

definition runnable :: "('k, 'w) loop \<Rightarrow> nat \<Rightarrow> bool" where
  "runnable s i =
     (i < length (tasks s) \<and>
      (case tasks s ! i of
         Pending _ _ \<Rightarrow> \<not> locked s
       | Suspended _ \<Rightarrow> True
       | Finished _ \<Rightarrow> False))"

definition enabled :: "('k, 'w) loop \<Rightarrow> nat list" where
  "enabled s = filter (runnable s) [0..<length (tasks s)]"

text \<open>
  A schedule is a list of numbers; each names, modulo their count, one of the tasks that
  can run. An exhausted schedule picks the first.
\<close>

definition pick :: "nat list \<Rightarrow> nat list \<Rightarrow> nat" where
  "pick es cs = es ! ((case cs of [] \<Rightarrow> 0 | c # _ \<Rightarrow> c) mod length es)"

definition weight_task :: "'k task \<Rightarrow> nat" where
  "weight_task t = (case t of Pending _ _ \<Rightarrow> 2 | Suspended _ \<Rightarrow> 1 | Finished _ \<Rightarrow> 0)"

definition weight :: "('k, 'w) loop \<Rightarrow> nat" where
  "weight s = sum_list (map weight_task (tasks s))"

definition is_suspended :: "'k task \<Rightarrow> bool" where
  "is_suspended t = (case t of Suspended _ \<Rightarrow> True | _ \<Rightarrow> False)"

definition is_finished :: "'k task \<Rightarrow> bool" where
  "is_finished t = (case t of Finished _ \<Rightarrow> True | _ \<Rightarrow> False)"

text \<open>The number of tasks suspended inside \<^verbatim>\<open>async with\<close>, each holding a permit.\<close>

definition in_flight :: "('k, 'w) loop \<Rightarrow> nat" where
  "in_flight s = length (filter is_suspended (tasks s))"

lemma length_step [simp]: "length (tasks (step b r i s)) = length (tasks s)"
  by (simp add: step_def acquire_def release_def Let_def split: task.splits outcome.splits prod.splits)

lemma sum_list_map_update:
  "i < length xs \<Longrightarrow>
     sum_list (map f (xs[i := y])) + f (xs ! i) = sum_list (map f xs) + (f y :: nat)"
proof (induction xs arbitrary: i)
  case Nil
  then show ?case by simp
next
  case (Cons x xs)
  then show ?case by (cases i) auto
qed

lemma weight_step:
  assumes "runnable s i"
  shows "weight (step b r i s) < weight s"
proof -
  from assms have i: "i < length (tasks s)" by (simp add: runnable_def)
  show ?thesis
  proof (cases "tasks s ! i")
    case (Pending v q)
    with assms have nl: "\<not> locked s" by (simp add: runnable_def)
    obtain out w where bw: "b i v q (world (acquire s)) = (out, w)" by (cases "b i v q (world (acquire s))")
    show ?thesis
    proof (cases out)
      case (Return d)
      with Pending nl bw i sum_list_map_update [of i "tasks s" weight_task "Finished d"]
      show ?thesis
        by (simp add: step_def weight_def acquire_def release_def weight_task_def)
    next
      case (Suspend k)
      with Pending nl bw i sum_list_map_update [of i "tasks s" weight_task "Suspended k"]
      show ?thesis
        by (simp add: step_def weight_def acquire_def release_def weight_task_def)
    qed
  next
    case (Suspended k)
    obtain d w where rw: "r i k (world s) = (d, w)" by (cases "r i k (world s)")
    with Suspended i sum_list_map_update [of i "tasks s" weight_task "Finished d"]
    show ?thesis
      by (simp add: step_def weight_def release_def weight_task_def)
  next
    case (Finished d)
    with assms show ?thesis by (simp add: runnable_def)
  qed
qed

lemma set_enabled: "set (enabled s) = {i. runnable s i}"
  by (auto simp: enabled_def runnable_def)

lemma pick_enabled: "es \<noteq> [] \<Longrightarrow> pick es cs \<in> set es"
  by (simp add: pick_def)

lemma pick_runnable: "enabled s \<noteq> [] \<Longrightarrow> runnable s (pick (enabled s) cs)"
  using pick_enabled [of "enabled s" cs] by (simp add: set_enabled)

text \<open>
  The event loop under \<^verbatim>\<open>asyncio.gather\<close>: as long as a task can run, the schedule
  picks one and it runs one piece. The loop ends when no task can run: all are done and
  \<^verbatim>\<open>gather\<close> returns, or the rest waits for a permit that nobody holds.
\<close>

function event_loop ::
  "('k, 'w) head_piece \<Rightarrow> ('k, 'w) tail_piece \<Rightarrow> nat list \<Rightarrow> ('k, 'w) loop \<Rightarrow> ('k, 'w) loop" where
  "event_loop b r cs s =
     (if enabled s = [] then s
      else event_loop b r (tl cs) (step b r (pick (enabled s) cs) s))"
  by pat_completeness auto
termination
proof (relation "measure (\<lambda>(b, r, cs, s). weight s)")
  show "wf (measure (\<lambda>(b, r, cs, s). weight s))" by simp
next
  fix b :: "('k, 'w) head_piece" and r :: "('k, 'w) tail_piece" and cs :: "nat list" and s :: "('k, 'w) loop"
  assume "enabled s \<noteq> []"
  then have "weight (step b r (pick (enabled s) cs) s) < weight s"
    by (intro weight_step pick_runnable)
  then show "((b, r, tl cs, step b r (pick (enabled s) cs) s), (b, r, cs, s))
               \<in> measure (\<lambda>(b, r, cs, s). weight s)"
    by simp
qed

declare event_loop.simps [simp del]

text \<open>The same loop stopped after one scheduling decision per element of the list.\<close>

fun exec :: "('k, 'w) head_piece \<Rightarrow> ('k, 'w) tail_piece \<Rightarrow> nat list \<Rightarrow> ('k, 'w) loop \<Rightarrow> ('k, 'w) loop" where
  "exec b r [] s = s"
| "exec b r (c # cs) s =
     (if enabled s = [] then s else exec b r cs (step b r (pick (enabled s) [c]) s))"


subsection \<open>Invariants of the event loop\<close>

lemma event_loop_unfold:
  "enabled s \<noteq> [] \<Longrightarrow>
     event_loop b r cs s = event_loop b r (tl cs) (step b r (pick (enabled s) cs) s)"
  by (subst event_loop.simps) simp

lemma event_loop_stop: "enabled s = [] \<Longrightarrow> event_loop b r cs s = s"
  by (subst event_loop.simps) simp

lemma event_loop_induct_inv:
  assumes "P s" and "\<And>s i. P s \<Longrightarrow> runnable s i \<Longrightarrow> P (step b r i s)"
  shows "P (event_loop b r cs s)"
  using assms
proof (induction b r cs s rule: event_loop.induct)
  case (1 b r cs s)
  show ?case
  proof (cases "enabled s = []")
    case True
    with "1.prems"(1) show ?thesis by (simp only: event_loop_stop)
  next
    case False
    have "P (step b r (pick (enabled s) cs) s)"
      by (rule "1.prems"(2) [OF "1.prems"(1) pick_runnable [OF False]])
    then have "P (event_loop b r (tl cs) (step b r (pick (enabled s) cs) s))"
      by (rule "1.IH" [OF False _ "1.prems"(2)])
    then show ?thesis by (simp only: event_loop_unfold [OF False])
  qed
qed

lemma exec_induct_inv:
  assumes "P s" and "\<And>s i. P s \<Longrightarrow> runnable s i \<Longrightarrow> P (step b r i s)"
  shows "P (exec b r cs s)"
  using assms(1)
proof (induction cs arbitrary: s)
  case Nil
  then show ?case by simp
next
  case (Cons c cs)
  show ?case
  proof (cases "enabled s = []")
    case True
    with Cons.prems show ?thesis by simp
  next
    case False
    then have "P (step b r (pick (enabled s) [c]) s)"
      using Cons.prems assms(2) pick_runnable by blast
    with False Cons.IH show ?thesis by simp
  qed
qed

lemma event_loop_quiescent: "enabled (event_loop b r cs s) = []"
proof (induction b r cs s rule: event_loop.induct)
  case (1 b r cs s)
  show ?case
  proof (cases "enabled s = []")
    case True
    then show ?thesis by (simp add: event_loop_stop)
  next
    case False
    with "1.IH" show ?thesis by (simp add: event_loop_unfold)
  qed
qed

lemma length_filter_update:
  "i < length xs \<Longrightarrow>
     length (filter P (xs[i := y])) + (if P (xs ! i) then 1 else 0)
       = length (filter P xs) + (if P y then 1 else 0)"
proof (induction xs arbitrary: i)
  case Nil
  then show ?case by simp
next
  case (Cons x xs)
  show ?case
  proof (cases i)
    case 0
    then show ?thesis by simp
  next
    case (Suc j)
    with Cons.prems have "j < length xs" by simp
    from Cons.IH [OF this] Suc show ?thesis by simp
  qed
qed

text \<open>Permits are neither lost nor made: free permits plus suspended holders is constant.\<close>

lemma permits_step: "sem_value (step b r i s) + in_flight (step b r i s) = sem_value s + in_flight s"
proof (cases "i < length (tasks s)")
  case False
  then show ?thesis by (simp add: step_def)
next
  case i: True
  show ?thesis
  proof (cases "tasks s ! i")
    case (Pending v q)
    show ?thesis
    proof (cases "locked s")
      case True
      with Pending i show ?thesis by (simp add: step_def)
    next
      case False
      then have pos: "0 < sem_value s" by (simp add: locked_def)
      obtain out w where bw: "b i v q (world (acquire s)) = (out, w)"
        by (cases "b i v q (world (acquire s))")
      show ?thesis
      proof (cases out)
        case (Return d)
        with Pending False bw i pos length_filter_update [of i "tasks s" is_suspended "Finished d"]
        show ?thesis
          by (simp add: step_def in_flight_def acquire_def release_def is_suspended_def)
      next
        case (Suspend k)
        with Pending False bw i pos length_filter_update [of i "tasks s" is_suspended "Suspended k"]
        show ?thesis
          by (simp add: step_def in_flight_def acquire_def release_def is_suspended_def)
      qed
    qed
  next
    case (Suspended k)
    obtain d w where rw: "r i k (world s) = (d, w)" by (cases "r i k (world s)")
    with Suspended i length_filter_update [of i "tasks s" is_suspended "Finished d"]
    show ?thesis
      by (simp add: step_def in_flight_def release_def is_suspended_def)
  next
    case (Finished d)
    with i show ?thesis by (simp add: step_def)
  qed
qed

lemma permits_exec: "sem_value (exec b r cs s) + in_flight (exec b r cs s) = sem_value s + in_flight s"
  by (rule exec_induct_inv [where P = "\<lambda>t. sem_value t + in_flight t = sem_value s + in_flight s"])
     (simp_all add: permits_step)

lemma permits_event_loop:
  "sem_value (event_loop b r cs s) + in_flight (event_loop b r cs s) = sem_value s + in_flight s"
  by (rule event_loop_induct_inv [where P = "\<lambda>t. sem_value t + in_flight t = sem_value s + in_flight s"])
     (simp_all add: permits_step)

lemma length_exec [simp]: "length (tasks (exec b r cs s)) = length (tasks s)"
  by (rule exec_induct_inv [where P = "\<lambda>t. length (tasks t) = length (tasks s)"]) simp_all

lemma length_event_loop [simp]: "length (tasks (event_loop b r cs s)) = length (tasks s)"
  by (rule event_loop_induct_inv [where P = "\<lambda>t. length (tasks t) = length (tasks s)"]) simp_all

text \<open>
  When nothing can run, nothing is suspended; and if a permit is free, nothing is pending
  either: every task is done.
\<close>

lemma quiescent_no_suspended:
  assumes "enabled s = []"
  shows "in_flight s = 0"
proof -
  have "\<not> is_suspended t" if "t \<in> set (tasks s)" for t
  proof
    assume susp: "is_suspended t"
    from that obtain i where "i < length (tasks s)" "tasks s ! i = t"
      by (auto simp: in_set_conv_nth)
    with susp have "runnable s i"
      by (auto simp: runnable_def is_suspended_def split: task.splits)
    then have "i \<in> set (enabled s)" by (simp add: set_enabled)
    with assms show False by simp
  qed
  then show ?thesis by (simp add: in_flight_def)
qed

lemma quiescent_all_finished:
  assumes "enabled s = []" and "0 < sem_value s" and "i < length (tasks s)"
  shows "is_finished (tasks s ! i)"
proof (rule ccontr)
  assume nf: "\<not> is_finished (tasks s ! i)"
  with assms(2,3) have "runnable s i"
    by (auto simp: runnable_def is_finished_def locked_def split: task.splits)
  then have "i \<in> set (enabled s)" by (simp add: set_enabled)
  with assms(1) show False by simp
qed

subsection \<open>Gathering the results\<close>

text \<open>
  How a call of \<^verbatim>\<open>process_batch\<close> ends: it returns the list of \<^verbatim>\<open>asyncio.gather\<close>, it
  raises, or it never returns because tasks wait for a permit that no task holds.
\<close>

datatype 'a run = Returned 'a | Raised exn | Blocked

definition the_result :: "'k task \<Rightarrow> dict" where
  "the_result t = (case t of Finished d \<Rightarrow> d | _ \<Rightarrow> [])"

text \<open>
  The loop \<^verbatim>\<open>for q in questions: tasks.append(self.process_question(q['id'], q['question']))\<close>.
  Calling the coroutine function runs none of its body; a missing key raises before
  \<^verbatim>\<open>gather\<close> is reached.
\<close>

fun make_tasks :: "dict list \<Rightarrow> exn + 'k task list" where
  "make_tasks [] = Inr []"
| "make_tasks (q # qs) =
     (case getitem q ''id'' of
        Inl e \<Rightarrow> Inl e
      | Inr video_id \<Rightarrow>
          (case getitem q ''question'' of
             Inl e \<Rightarrow> Inl e
           | Inr question \<Rightarrow>
               (case make_tasks qs of
                  Inl e \<Rightarrow> Inl e
                | Inr ts \<Rightarrow> Inr (Pending video_id question # ts))))"

definition initial :: "nat \<Rightarrow> 'k task list \<Rightarrow> 'w \<Rightarrow> ('k, 'w) loop" where
  "initial n ts w = \<lparr>sem_value = n, tasks = ts, world = w\<rparr>"

text \<open>
  \<^verbatim>\<open>await asyncio.gather(*tasks)\<close>: the event loop runs the tasks; the value is the list
  of their results in the order of the tasks, once all are done.
\<close>

definition gather ::
  "('k, 'w) head_piece \<Rightarrow> ('k, 'w) tail_piece \<Rightarrow> nat list \<Rightarrow> ('k, 'w) loop \<Rightarrow> dict list run" where
  "gather b r cs s =
     (let s' = event_loop b r cs s in
      if list_all is_finished (tasks s') then Returned (map the_result (tasks s')) else Blocked)"

text \<open>A WorkItem of the spec: a row with the keys \<^verbatim>\<open>id\<close> and \<^verbatim>\<open>question\<close>.\<close>

definition work_item :: "dict \<Rightarrow> bool" where
  "work_item q = (map_of q ''id'' \<noteq> None \<and> map_of q ''question'' \<noteq> None)"

definition item_of :: "dict \<Rightarrow> string \<times> string" where
  "item_of q = (the (map_of q ''id''), the (map_of q ''question''))"

lemma make_tasks_work_items:
  "list_all work_item qs \<Longrightarrow>
     make_tasks qs = Inr (map (\<lambda>q. case item_of q of (v, u) \<Rightarrow> Pending v u) qs)"
  by (induction qs) (auto simp: work_item_def item_of_def getitem_def)

subsection \<open>What a task ends with does not depend on the schedule\<close>

text \<open>
  \<open>tracks r f items s\<close>: task \<open>i\<close> still is the call for item \<open>i\<close>, or it is suspended
  and will return \<open>f i (items ! i)\<close> whatever the world is then, or it has returned that.
\<close>

definition tracks ::
  "('k, 'w) tail_piece \<Rightarrow> (nat \<Rightarrow> string \<times> string \<Rightarrow> dict) \<Rightarrow> (string \<times> string) list
     \<Rightarrow> ('k, 'w) loop \<Rightarrow> bool" where
  "tracks r f items s =
     (length (tasks s) = length items \<and>
      (\<forall>i < length items.
         case tasks s ! i of
           Pending v u \<Rightarrow> (v, u) = items ! i
         | Suspended k \<Rightarrow> (\<forall>w. fst (r i k w) = f i (items ! i))
         | Finished d \<Rightarrow> d = f i (items ! i)))"

definition determined ::
  "('k, 'w) head_piece \<Rightarrow> ('k, 'w) tail_piece \<Rightarrow> (nat \<Rightarrow> string \<times> string \<Rightarrow> dict) \<Rightarrow> bool" where
  "determined b r f =
     (\<forall>i v u w.
        case fst (b i v u w) of
          Return d \<Rightarrow> d = f i (v, u)
        | Suspend k \<Rightarrow> (\<forall>w'. fst (r i k w') = f i (v, u)))"

lemma tracks_initial:
  "tracks r f items (initial n (map (\<lambda>(v, u). Pending v u) items) w)"
  by (simp add: tracks_def initial_def split_beta)

lemma tracks_step:
  assumes det: "determined b r f" and tr: "tracks r f items s"
  shows "tracks r f items (step b r j s)"
proof -
  from tr have len: "length (tasks s) = length items" by (simp add: tracks_def)
  from tr have at: "\<And>i. i < length items \<Longrightarrow>
      (case tasks s ! i of
         Pending v u \<Rightarrow> (v, u) = items ! i
       | Suspended k \<Rightarrow> (\<forall>w. fst (r i k w) = f i (items ! i))
       | Finished d \<Rightarrow> d = f i (items ! i))"
    by (simp add: tracks_def)
  show ?thesis
  proof (cases "j < length (tasks s)")
    case False
    with tr show ?thesis by (simp add: step_def)
  next
    case j: True
    show ?thesis
    proof (cases "tasks s ! j")
      case (Pending v u)
      with at [of j] j len have item: "(v, u) = items ! j" by simp
      show ?thesis
      proof (cases "locked s")
        case True
        with Pending j tr show ?thesis by (simp add: step_def)
      next
        case False
        obtain out w where bw: "b j v u (world (acquire s)) = (out, w)"
          by (cases "b j v u (world (acquire s))")
        from det have d: "case fst (b j v u (world (acquire s))) of
            Return d \<Rightarrow> d = f j (v, u)
          | Suspend k \<Rightarrow> (\<forall>w'. fst (r j k w') = f j (v, u))"
          unfolding determined_def by blast
        show ?thesis
        proof (cases out)
          case (Return d')
          with d bw item have "d' = f j (items ! j)" by simp
          with Return Pending False bw j len at show ?thesis
            by (simp add: step_def tracks_def acquire_def release_def nth_list_update)
        next
          case (Suspend k)
          with d bw item have "\<forall>w'. fst (r j k w') = f j (items ! j)" by simp
          with Suspend Pending False bw j len at show ?thesis
            by (simp add: step_def tracks_def acquire_def release_def nth_list_update)
        qed
      qed
    next
      case (Suspended k)
      obtain d w where rw: "r j k (world s) = (d, w)" by (cases "r j k (world s)")
      from at [of j] j len Suspended have "fst (r j k (world s)) = f j (items ! j)" by simp
      with rw have "d = f j (items ! j)" by simp
      with Suspended rw j len at show ?thesis
        by (simp add: step_def tracks_def release_def nth_list_update)
    next
      case (Finished d)
      with j tr show ?thesis by (simp add: step_def)
    qed
  qed
qed

lemma tracks_event_loop:
  "determined b r f \<Longrightarrow> tracks r f items s \<Longrightarrow> tracks r f items (event_loop b r cs s)"
  by (rule event_loop_induct_inv [where P = "tracks r f items"]) (simp_all add: tracks_step)

lemma in_flight_initial_pending [simp]:
  "in_flight (initial n (map (\<lambda>(v, u). Pending v u) items) w) = 0"
  by (simp add: in_flight_def initial_def is_suspended_def split_beta)

text \<open>
  With at least one permit the loop ends with every task done, and \<^verbatim>\<open>gather\<close> returns,
  position by position, what each call is determined to return.
\<close>

lemma event_loop_all_finished:
  fixes b :: "('k, 'w) head_piece"
  assumes "0 < n" and "i < length items"
  shows "is_finished (tasks (event_loop b r cs (initial n (map (\<lambda>(v, u). Pending v u) items) w)) ! i)"
proof -
  let ?init = "initial n (map (\<lambda>(v, u). Pending v u) items) w :: ('k, 'w) loop"
  let ?s = "event_loop b r cs ?init"
  have q: "enabled ?s = []" by (rule event_loop_quiescent)
  have "sem_value ?s + in_flight ?s = sem_value ?init + in_flight ?init"
    by (rule permits_event_loop)
  moreover have "in_flight ?s = 0" using q by (rule quiescent_no_suspended)
  moreover have "in_flight ?init = 0" by simp
  moreover have "sem_value ?init = n" by (simp add: initial_def)
  ultimately have "sem_value ?s = n" by simp
  with assms(1) have pos: "0 < sem_value ?s" by simp
  have "i < length (tasks ?s)" using assms(2) by (simp add: initial_def)
  with q pos show ?thesis by (rule quiescent_all_finished)
qed

lemma sem_value_event_loop_initial:
  fixes b :: "('k, 'w) head_piece"
  shows "sem_value (event_loop b r cs (initial n (map (\<lambda>(v, u). Pending v u) items) w)) = n"
proof -
  let ?init = "initial n (map (\<lambda>(v, u). Pending v u) items) w :: ('k, 'w) loop"
  let ?s = "event_loop b r cs ?init"
  have "sem_value ?s + in_flight ?s = sem_value ?init + in_flight ?init"
    by (rule permits_event_loop)
  moreover have "in_flight ?s = 0" using event_loop_quiescent by (rule quiescent_no_suspended)
  moreover have "in_flight ?init = 0" by simp
  moreover have "sem_value ?init = n" by (simp add: initial_def)
  ultimately show ?thesis by simp
qed

lemma gather_returns:
  fixes b :: "('k, 'w) head_piece"
  assumes n: "0 < n" and det: "determined b r f"
  shows "gather b r cs (initial n (map (\<lambda>(v, u). Pending v u) items) w)
           = Returned (map (\<lambda>i. f i (items ! i)) [0..<length items])"
proof -
  let ?init = "initial n (map (\<lambda>(v, u). Pending v u) items) w :: ('k, 'w) loop"
  let ?s = "event_loop b r cs ?init"
  have len: "length (tasks ?s) = length items" by (simp add: initial_def)
  have fin: "is_finished (tasks ?s ! i)" if "i < length items" for i
    using n that by (rule event_loop_all_finished)
  have tr: "tracks r f items ?s"
    using det tracks_initial by (rule tracks_event_loop)
  have res: "the_result (tasks ?s ! i) = f i (items ! i)" if "i < length items" for i
  proof -
    from fin [OF that] obtain d where d: "tasks ?s ! i = Finished d"
      by (auto simp: is_finished_def split: task.splits)
    with tr that have "d = f i (items ! i)" by (auto simp: tracks_def)
    with d show ?thesis by (simp add: the_result_def)
  qed
  have all: "list_all is_finished (tasks ?s)"
    using fin len by (auto simp: list_all_length)
  have "map the_result (tasks ?s) = map (\<lambda>i. f i (items ! i)) [0..<length items]"
    using res len by (auto intro: nth_equalityI)
  with all show ?thesis by (simp add: gather_def)
qed

subsection \<open>The external collaborators\<close>

text \<open>A part of a multi-modal request.\<close>

datatype part = Text string | Image_url string | Image_data string | Video_uri string

text \<open>One entry of \<^verbatim>\<open>completion.choices\<close>: \<^verbatim>\<open>message.content\<close> and \<^verbatim>\<open>finish_reason\<close>.\<close>

record choice =
  message_content :: string
  finish_reason :: string

text \<open>
  Everything outside the scripts is a field of the environment.
  \<^item> \<open>glob dir\<close>: the files \<^verbatim>\<open>frame_*.jpg\<close> of a directory, in any order;
  \<^item> \<open>encode_image path\<close>: \<^verbatim>\<open>open\<close>, \<^verbatim>\<open>read\<close> and \<^verbatim>\<open>b64encode\<close>, which may raise;
  \<^item> \<open>image_part path\<close>: \<^verbatim>\<open>PIL.Image.open\<close>, \<^verbatim>\<open>image_to_bytes\<close> and \<^verbatim>\<open>Part.from_data\<close>;
  \<^item> \<open>create_prompt question\<close>: the prompt text around the question, which no
    property below looks into;
  \<^item> \<open>chat_create i content\<close>: how \<^verbatim>\<open>client.chat.completions.create\<close> resolves for
    the call made by task \<open>i\<close>: it raises, or it gives the list of choices;
  \<^item> \<open>generate_content i contents\<close>: how the blocking \<^verbatim>\<open>model.generate_content\<close>
    ends for the call made by task \<open>i\<close>: it raises, or it gives a response, whose
    \<^verbatim>\<open>.text\<close> is a string or raises.
  The provider is free to answer equal requests differently: its answer is a function
  of the call instance.
\<close>

record env =
  glob :: "string \<Rightarrow> string list"
  encode_image :: "string \<Rightarrow> exn + string"
  image_part :: "string \<Rightarrow> exn + string"
  create_prompt :: "string \<Rightarrow> string"
  chat_create :: "nat \<Rightarrow> part list \<Rightarrow> exn + choice list"
  generate_content :: "nat \<Rightarrow> part list \<Rightarrow> exn + (exn + string)"

text \<open>
  \<^verbatim>\<open>get_frame_paths\<close>: \<^verbatim>\<open>sorted(list((Path(frames_dir) / str(video_id)).glob('frame_*.jpg')))\<close>.
  The directory name is \<^verbatim>\<open>extracted_frames_8\<close> in the 8-frame script and
  \<^verbatim>\<open>extracted_frames\<close> in the others.
\<close>

definition get_frame_paths :: "env \<Rightarrow> string \<Rightarrow> string \<Rightarrow> string list" where
  "get_frame_paths env frames_dir video_id = sort (glob env (frames_dir @ ''/'' @ video_id))"

subsection \<open>\<^verbatim>\<open>8_frames_testing/inference4o_8frames.py\<close>\<close>

text \<open>The handler \<^verbatim>\<open>except Exception as e: return {"video_id": video_id, "error": str(e)}\<close>.\<close>

definition error_result :: "string \<Rightarrow> exn \<Rightarrow> dict" where
  "error_result video_id e = [(''video_id'', video_id), (''error'', str e)]"

text \<open>The loop that appends one \<^verbatim>\<open>image_url\<close> part per frame; it stops where a read raises.\<close>

fun add_frames :: "env \<Rightarrow> string list \<Rightarrow> part list \<Rightarrow> exn + part list" where
  "add_frames env [] content = Inr content"
| "add_frames env (path # paths) content =
     (case encode_image env path of
        Inl e \<Rightarrow> Inl e
      | Inr base64_image \<Rightarrow>
          add_frames env paths (content @ [Image_url (''data:image/jpeg;base64,'' @ base64_image)]))"

text \<open>
  \<^verbatim>\<open>process_question\<close> up to \<^verbatim>\<open>await self.client.chat.completions.create(...)\<close>. The
  world is the list of the tasks whose request has gone to the provider.
\<close>

definition process_question_head :: "env \<Rightarrow> (string \<times> part list, nat list) head_piece" where
  "process_question_head env i video_id question sent =
     (let frame_paths = get_frame_paths env ''extracted_frames_8'' video_id in
      if frame_paths = [] then
        (Return (error_result video_id
                   (FileNotFoundError (''No frames found for video ID '' @ video_id))), sent)
      else
        (case add_frames env frame_paths [Text (create_prompt env question)] of
           Inl e \<Rightarrow> (Return (error_result video_id e), sent)
         | Inr content \<Rightarrow> (Suspend (video_id, content), sent @ [i])))"

text \<open>
  \<^verbatim>\<open>process_question\<close> from the point where the awaited call resolves: the exception
  goes to the handler; otherwise the response dict is built from \<^verbatim>\<open>choices[0]\<close>, and an
  empty list of choices is an \<^verbatim>\<open>IndexError\<close> for the same handler.
\<close>

definition process_question_tail :: "env \<Rightarrow> (string \<times> part list, nat list) tail_piece" where
  "process_question_tail env i k sent =
     (case k of (video_id, content) \<Rightarrow>
        (case chat_create env i content of
           Inl e \<Rightarrow> (error_result video_id e, sent)
         | Inr choices \<Rightarrow>
             (case choices of
                [] \<Rightarrow> (error_result video_id (IndexError ''list index out of range''), sent)
              | c # _ \<Rightarrow>
                  ([(''video_id'', video_id),
                    (''answer'', message_content c),
                    (''finish_reason'', finish_reason c)], sent))))"

text \<open>What one call of \<^verbatim>\<open>process_question\<close> returns when it is the task at position \<open>i\<close>.\<close>

definition process_question :: "env \<Rightarrow> nat \<Rightarrow> string \<times> string \<Rightarrow> dict" where
  "process_question env i item =
     (case item of (video_id, question) \<Rightarrow>
        (case fst (process_question_head env i video_id question []) of
           Return d \<Rightarrow> d
         | Suspend k \<Rightarrow> fst (process_question_tail env i k [])))"

text \<open>
  \<^verbatim>\<open>process_batch\<close> of a processor whose semaphore was made with
  \<^verbatim>\<open>max_concurrent_requests\<close> permits, under the schedule \<open>cs\<close>.
\<close>

definition process_batch :: "env \<Rightarrow> nat \<Rightarrow> nat list \<Rightarrow> dict list \<Rightarrow> dict list run" where
  "process_batch env max_concurrent_requests cs questions =
     (case make_tasks questions of
        Inl e \<Rightarrow> Raised e
      | Inr ts \<Rightarrow>
          gather (process_question_head env) (process_question_tail env) cs
            (initial max_concurrent_requests ts []))"

lemma determined_process_question:
  "determined (process_question_head env) (process_question_tail env) (process_question env)"
  unfolding determined_def
proof (intro allI)
  fix i v u and w :: "nat list"
  have fst_head: "fst (process_question_head env i v u w) = fst (process_question_head env i v u [])"
    by (simp add: process_question_head_def Let_def split: sum.splits)
  have fst_tail: "fst (process_question_tail env i k w') = fst (process_question_tail env i k [])"
    for k w'
    by (simp add: process_question_tail_def split: prod.splits sum.splits list.splits)
  show "case fst (process_question_head env i v u w) of
          Return d \<Rightarrow> d = process_question env i (v, u)
        | Suspend k \<Rightarrow> \<forall>w'. fst (process_question_tail env i k w') = process_question env i (v, u)"
  proof (cases "fst (process_question_head env i v u [])")
    case (Return d)
    with fst_head show ?thesis by (simp add: process_question_def)
  next
    case (Suspend k)
    with fst_head fst_tail show ?thesis by (simp add: process_question_def)
  qed
qed

subsection \<open>\<^verbatim>\<open>gemini_pro.py\<close>\<close>

text \<open>The loop that appends one image part per frame; it stops where loading raises.\<close>

fun add_image_parts :: "env \<Rightarrow> string list \<Rightarrow> part list \<Rightarrow> exn + part list" where
  "add_image_parts env [] image_parts = Inr image_parts"
| "add_image_parts env (path # paths) image_parts =
     (case image_part env path of
        Inl e \<Rightarrow> Inl e
      | Inr image_bytes \<Rightarrow> add_image_parts env paths (image_parts @ [Image_data image_bytes]))"

text \<open>
  \<^verbatim>\<open>process_question\<close> of \<^verbatim>\<open>gemini_pro.py\<close>. \<^verbatim>\<open>self.model.generate_content\<close> is a
  blocking call, not awaited: the body has no suspension point and the whole of it is
  one piece.
\<close>

definition process_question_gemini_pro_head :: "env \<Rightarrow> (unit, nat list) head_piece" where
  "process_question_gemini_pro_head env i video_id question sent =
     (let frame_paths = get_frame_paths env ''extracted_frames'' video_id in
      if frame_paths = [] then
        (Return (error_result video_id
                   (FileNotFoundError (''No frames found for video ID '' @ video_id))), sent)
      else
        (case add_image_parts env frame_paths [] of
           Inl e \<Rightarrow> (Return (error_result video_id e), sent)
         | Inr image_parts \<Rightarrow>
             (let contents = Text (create_prompt env question) # image_parts in
              case generate_content env i contents of
                Inl e \<Rightarrow> (Return (error_result video_id e), sent @ [i])
              | Inr response \<Rightarrow>
                  (case response of
                     Inl e \<Rightarrow> (Return (error_result video_id e), sent @ [i])
                   | Inr text \<Rightarrow>
                       (Return [(''video_id'', video_id), (''answer'', text)], sent @ [i])))))"

definition no_tail :: "(unit, nat list) tail_piece" where
  "no_tail i k sent = ([], sent)"

definition process_question_gemini_pro :: "env \<Rightarrow> nat \<Rightarrow> string \<times> string \<Rightarrow> dict" where
  "process_question_gemini_pro env i item =
     (case item of (video_id, question) \<Rightarrow>
        (case fst (process_question_gemini_pro_head env i video_id question []) of
           Return d \<Rightarrow> d
         | Suspend k \<Rightarrow> []))"

definition process_batch_gemini_pro :: "env \<Rightarrow> nat \<Rightarrow> nat list \<Rightarrow> dict list \<Rightarrow> dict list run" where
  "process_batch_gemini_pro env max_concurrent_requests cs questions =
     (case make_tasks questions of
        Inl e \<Rightarrow> Raised e
      | Inr ts \<Rightarrow>
          gather (process_question_gemini_pro_head env) no_tail cs
            (initial max_concurrent_requests ts []))"

lemma gemini_pro_head_returns:
  "\<exists>d. fst (process_question_gemini_pro_head env i v u w) = Return d
       \<and> fst (process_question_gemini_pro_head env i v u []) = Return d"
  by (simp add: process_question_gemini_pro_head_def Let_def split: sum.splits)

lemma determined_process_question_gemini_pro:
  "determined (process_question_gemini_pro_head env) no_tail (process_question_gemini_pro env)"
  unfolding determined_def
proof (intro allI)
  fix i v u and w :: "nat list"
  from gemini_pro_head_returns [of env i v u w] obtain d where
    "fst (process_question_gemini_pro_head env i v u w) = Return d"
    "fst (process_question_gemini_pro_head env i v u []) = Return d" by blast
  then show "case fst (process_question_gemini_pro_head env i v u w) of
          Return d \<Rightarrow> d = process_question_gemini_pro env i (v, u)
        | Suspend k \<Rightarrow> \<forall>w'. fst (no_tail i k w') = process_question_gemini_pro env i (v, u)"
    by (simp add: process_question_gemini_pro_def)
qed

subsection \<open>Results of a batch\<close>

lemma process_batch_eq:
  assumes "list_all work_item questions" and "0 < n"
  shows "process_batch env n cs questions
           = Returned (map (\<lambda>i. process_question env i (item_of (questions ! i))) [0..<length questions])"
proof -
  let ?items = "map item_of questions"
  have mk: "(make_tasks questions :: exn + (string \<times> part list) task list)
              = Inr (map (\<lambda>(v, u). Pending v u) ?items)"
    using assms(1) by (simp add: make_tasks_work_items split_beta)
  have "gather (process_question_head env) (process_question_tail env) cs
          (initial n (map (\<lambda>(v, u). Pending v u) ?items) [])
        = Returned (map (\<lambda>i. process_question env i (?items ! i)) [0..<length ?items])"
    using assms(2) determined_process_question by (rule gather_returns)
  with mk show ?thesis by (simp add: process_batch_def cong: map_cong)
qed

lemma process_batch_gemini_pro_eq:
  assumes "list_all work_item questions" and "0 < n"
  shows "process_batch_gemini_pro env n cs questions
           = Returned (map (\<lambda>i. process_question_gemini_pro env i (item_of (questions ! i)))
                        [0..<length questions])"
proof -
  let ?items = "map item_of questions"
  have mk: "(make_tasks questions :: exn + unit task list)
              = Inr (map (\<lambda>(v, u). Pending v u) ?items)"
    using assms(1) by (simp add: make_tasks_work_items split_beta)
  have "gather (process_question_gemini_pro_head env) no_tail cs
          (initial n (map (\<lambda>(v, u). Pending v u) ?items) [])
        = Returned (map (\<lambda>i. process_question_gemini_pro env i (?items ! i)) [0..<length ?items])"
    using assms(2) determined_process_question_gemini_pro by (rule gather_returns)
  with mk show ?thesis by (simp add: process_batch_gemini_pro_def cong: map_cong)
qed

lemma process_question_video_id:
  "map_of (process_question env i (v, u)) ''video_id'' = Some v"
  by (simp add: process_question_def process_question_head_def process_question_tail_def
      error_result_def Let_def split: sum.splits list.splits)

lemma process_question_gemini_pro_video_id:
  "map_of (process_question_gemini_pro env i (v, u)) ''video_id'' = Some v"
  by (simp add: process_question_gemini_pro_def process_question_gemini_pro_head_def
      error_result_def Let_def split: sum.splits)

lemma work_item_id: "work_item q \<Longrightarrow> map_of q ''id'' = Some (fst (item_of q))"
  by (auto simp: work_item_def item_of_def)

subsection \<open>The example of the spec\<close>

text \<open>
  Two work items, \<^verbatim>\<open>00001\<close> with one frame and \<^verbatim>\<open>00002\<close> with none; the provider
  answers every request.
\<close>

definition example_batch :: "dict list" where
  "example_batch =
     [[(''id'', ''00001''), (''question'', ''Q1'')],
      [(''id'', ''00002''), (''question'', ''Q2'')]]"

definition example_env :: env where
  "example_env =
     \<lparr>glob = (\<lambda>dir. if dir = ''extracted_frames_8/00001'' \<or> dir = ''extracted_frames/00001''
                     then [dir @ ''/frame_0001.jpg''] else []),
      encode_image = (\<lambda>path. Inr ''QUJD''),
      image_part = (\<lambda>path. Inr ''ABC''),
      create_prompt = (\<lambda>question. question),
      chat_create = (\<lambda>i content. Inr [\<lparr>message_content = ''<answer>B</answer>'', finish_reason = ''stop''\<rparr>]),
      generate_content = (\<lambda>i contents. Inr (Inr ''<answer>B</answer>''))\<rparr>"


subsection \<open>One result per work item\<close>

lemma process_question_shape:
  "(\<exists>a f. process_question env i (v, u) = [(''video_id'', v), (''answer'', a), (''finish_reason'', f)])
   \<or> (\<exists>m. process_question env i (v, u) = [(''video_id'', v), (''error'', m)])"
  by (simp add: process_question_def process_question_head_def process_question_tail_def
      error_result_def Let_def split: sum.splits list.splits)

lemma process_question_gemini_pro_shape:
  "(\<exists>a. process_question_gemini_pro env i (v, u) = [(''video_id'', v), (''answer'', a)])
   \<or> (\<exists>m. process_question_gemini_pro env i (v, u) = [(''video_id'', v), (''error'', m)])"
  by (simp add: process_question_gemini_pro_def process_question_gemini_pro_head_def
      error_result_def Let_def split: sum.splits)

text \<open>
  C1. For a batch of work items (rows with \<^verbatim>\<open>id\<close> and \<^verbatim>\<open>question\<close>) and a semaphore
  with at least one permit, \<^verbatim>\<open>process_batch\<close> returns under every schedule, whatever
  the frame store and the provider do. The list it returns has exactly one Result per
  work item: it is as long as the batch, and its \<open>i\<close>-th element is what
  \<^verbatim>\<open>process_question\<close> returns for the \<open>i\<close>-th work item, which is a success record
  with the identifier and the answer or an error record with the identifier and the
  error text. This holds for the script \<^verbatim>\<open>8_frames_testing/inference4o_8frames.py\<close>
  and for \<^verbatim>\<open>gemini_pro.py\<close>.
\<close>

theorem process_batch_one_result_per_work_item:
  assumes "list_all work_item questions" and "0 < n"
  shows "(\<exists>results. process_batch env n cs questions = Returned results
            \<and> length results = length questions
            \<and> (\<forall>i < length questions. \<exists>v u.
                  map_of (questions ! i) ''id'' = Some v
                  \<and> map_of (questions ! i) ''question'' = Some u
                  \<and> results ! i = process_question env i (v, u)
                  \<and> ((\<exists>a f. results ! i
                               = [(''video_id'', v), (''answer'', a), (''finish_reason'', f)])
                       \<or> (\<exists>m. results ! i = [(''video_id'', v), (''error'', m)]))))
       \<and> (\<exists>results. process_batch_gemini_pro env n cs' questions = Returned results
            \<and> length results = length questions
            \<and> (\<forall>i < length questions. \<exists>v u.
                  map_of (questions ! i) ''id'' = Some v
                  \<and> map_of (questions ! i) ''question'' = Some u
                  \<and> results ! i = process_question_gemini_pro env i (v, u)
                  \<and> ((\<exists>a. results ! i = [(''video_id'', v), (''answer'', a)])
                       \<or> (\<exists>m. results ! i = [(''video_id'', v), (''error'', m)]))))"
proof (intro conjI)
  have item: "\<exists>v u. map_of (questions ! i) ''id'' = Some v
                \<and> map_of (questions ! i) ''question'' = Some u
                \<and> item_of (questions ! i) = (v, u)" if "i < length questions" for i
  proof -
    from assms(1) that have "work_item (questions ! i)" by (simp add: list_all_length)
    then show ?thesis by (auto simp: work_item_def item_of_def)
  qed
  let ?rs = "map (\<lambda>i. process_question env i (item_of (questions ! i))) [0..<length questions]"
  have "\<exists>v u. map_of (questions ! i) ''id'' = Some v
          \<and> map_of (questions ! i) ''question'' = Some u
          \<and> ?rs ! i = process_question env i (v, u)
          \<and> ((\<exists>a f. ?rs ! i = [(''video_id'', v), (''answer'', a), (''finish_reason'', f)])
               \<or> (\<exists>m. ?rs ! i = [(''video_id'', v), (''error'', m)]))"
    if "i < length questions" for i
  proof -
    from item [OF that] obtain v u where q: "map_of (questions ! i) ''id'' = Some v"
      "map_of (questions ! i) ''question'' = Some u" "item_of (questions ! i) = (v, u)"
      by blast
    from that q(3) have r: "?rs ! i = process_question env i (v, u)" by simp
    from process_question_shape [of env i v u] r
    have "(\<exists>a f. ?rs ! i = [(''video_id'', v), (''answer'', a), (''finish_reason'', f)])
          \<or> (\<exists>m. ?rs ! i = [(''video_id'', v), (''error'', m)])"
      by (simp only:)
    with q(1,2) r show ?thesis by blast
  qed
  then show "\<exists>results. process_batch env n cs questions = Returned results
            \<and> length results = length questions
            \<and> (\<forall>i < length questions. \<exists>v u.
                  map_of (questions ! i) ''id'' = Some v
                  \<and> map_of (questions ! i) ''question'' = Some u
                  \<and> results ! i = process_question env i (v, u)
                  \<and> ((\<exists>a f. results ! i
                               = [(''video_id'', v), (''answer'', a), (''finish_reason'', f)])
                       \<or> (\<exists>m. results ! i = [(''video_id'', v), (''error'', m)])))"
    using process_batch_eq [OF assms, of env cs] by (intro exI [of _ ?rs]) simp
next
  have item: "\<exists>v u. map_of (questions ! i) ''id'' = Some v
                \<and> map_of (questions ! i) ''question'' = Some u
                \<and> item_of (questions ! i) = (v, u)" if "i < length questions" for i
  proof -
    from assms(1) that have "work_item (questions ! i)" by (simp add: list_all_length)
    then show ?thesis by (auto simp: work_item_def item_of_def)
  qed
  let ?rs = "map (\<lambda>i. process_question_gemini_pro env i (item_of (questions ! i)))
               [0..<length questions]"
  have "\<exists>v u. map_of (questions ! i) ''id'' = Some v
          \<and> map_of (questions ! i) ''question'' = Some u
          \<and> ?rs ! i = process_question_gemini_pro env i (v, u)
          \<and> ((\<exists>a. ?rs ! i = [(''video_id'', v), (''answer'', a)])
               \<or> (\<exists>m. ?rs ! i = [(''video_id'', v), (''error'', m)]))"
    if "i < length questions" for i
  proof -
    from item [OF that] obtain v u where q: "map_of (questions ! i) ''id'' = Some v"
      "map_of (questions ! i) ''question'' = Some u" "item_of (questions ! i) = (v, u)"
      by blast
    from that q(3) have r: "?rs ! i = process_question_gemini_pro env i (v, u)" by simp
    from process_question_gemini_pro_shape [of env i v u] r
    have "(\<exists>a. ?rs ! i = [(''video_id'', v), (''answer'', a)])
          \<or> (\<exists>m. ?rs ! i = [(''video_id'', v), (''error'', m)])"
      by (simp only:)
    with q(1,2) r show ?thesis by blast
  qed
  then show "\<exists>results. process_batch_gemini_pro env n cs' questions = Returned results
            \<and> length results = length questions
            \<and> (\<forall>i < length questions. \<exists>v u.
                  map_of (questions ! i) ''id'' = Some v
                  \<and> map_of (questions ! i) ''question'' = Some u
                  \<and> results ! i = process_question_gemini_pro env i (v, u)
                  \<and> ((\<exists>a. results ! i = [(''video_id'', v), (''answer'', a)])
                       \<or> (\<exists>m. results ! i = [(''video_id'', v), (''error'', m)])))"
    using process_batch_gemini_pro_eq [OF assms, of env cs'] by (intro exI [of _ ?rs]) simp
qed

lemma example_batch_work_items: "list_all work_item example_batch"
  by (simp add: example_batch_def work_item_def)

lemma process_batch_example:
  "process_batch example_env 1 [] example_batch =
     Returned
       [[(''video_id'', ''00001''), (''answer'', ''<answer>B</answer>''), (''finish_reason'', ''stop'')],
        [(''video_id'', ''00002''), (''error'', ''No frames found for video ID 00002'')]]"
  by code_simp

lemma process_batch_gemini_pro_example:
  "process_batch_gemini_pro example_env 1 [] example_batch =
     Returned
       [[(''video_id'', ''00001''), (''answer'', ''<answer>B</answer>'')],
        [(''video_id'', ''00002''), (''error'', ''No frames found for video ID 00002'')]]"
  by code_simp

theorem process_batch_one_result_per_work_item_witness:
  "list_all work_item example_batch \<and> (0::nat) < 1
   \<and> process_batch example_env 1 [] example_batch =
       Returned
         [[(''video_id'', ''00001''), (''answer'', ''<answer>B</answer>''), (''finish_reason'', ''stop'')],
          [(''video_id'', ''00002''), (''error'', ''No frames found for video ID 00002'')]]
   \<and> length [[(''video_id'', ''00001''), (''answer'', ''<answer>B</answer>''), (''finish_reason'', ''stop'')],
              [(''video_id'', ''00002''), (''error'', ''No frames found for video ID 00002'')]]
       = length example_batch
   \<and> process_question example_env 0 (''00001'', ''Q1'')
       = [(''video_id'', ''00001''), (''answer'', ''<answer>B</answer>''), (''finish_reason'', ''stop'')]
   \<and> process_question example_env 1 (''00002'', ''Q2'')
       = [(''video_id'', ''00002''), (''error'', ''No frames found for video ID 00002'')]
   \<and> process_batch_gemini_pro example_env 1 [] example_batch =
       Returned
         [[(''video_id'', ''00001''), (''answer'', ''<answer>B</answer>'')],
          [(''video_id'', ''00002''), (''error'', ''No frames found for video ID 00002'')]]
   \<and> process_question_gemini_pro example_env 0 (''00001'', ''Q1'')
       = [(''video_id'', ''00001''), (''answer'', ''<answer>B</answer>'')]
   \<and> process_question_gemini_pro example_env 1 (''00002'', ''Q2'')
       = [(''video_id'', ''00002''), (''error'', ''No frames found for video ID 00002'')]"
proof -
  have len: "length example_batch = 2" by (simp add: example_batch_def)
  have q0: "map_of (example_batch ! 0) ''id'' = Some ''00001''"
    "map_of (example_batch ! 0) ''question'' = Some ''Q1''"
    and q1: "map_of (example_batch ! 1) ''id'' = Some ''00002''"
    "map_of (example_batch ! 1) ''question'' = Some ''Q2''"
    by (simp_all add: example_batch_def)
  from process_batch_one_result_per_work_item
         [OF example_batch_work_items zero_less_one, of example_env "[]" "[]"]
  obtain results results' where
    r: "process_batch example_env 1 [] example_batch = Returned results"
    and nth: "\<forall>i < length example_batch. \<exists>v u.
                  map_of (example_batch ! i) ''id'' = Some v
                  \<and> map_of (example_batch ! i) ''question'' = Some u
                  \<and> results ! i = process_question example_env i (v, u)"
    and r': "process_batch_gemini_pro example_env 1 [] example_batch = Returned results'"
    and nth': "\<forall>i < length example_batch. \<exists>v u.
                  map_of (example_batch ! i) ''id'' = Some v
                  \<and> map_of (example_batch ! i) ''question'' = Some u
                  \<and> results' ! i = process_question_gemini_pro example_env i (v, u)"
    by blast
  from r process_batch_example have results:
    "results = [[(''video_id'', ''00001''), (''answer'', ''<answer>B</answer>''), (''finish_reason'', ''stop'')],
                [(''video_id'', ''00002''), (''error'', ''No frames found for video ID 00002'')]]"
    by simp
  from r' process_batch_gemini_pro_example have results':
    "results' = [[(''video_id'', ''00001''), (''answer'', ''<answer>B</answer>'')],
                 [(''video_id'', ''00002''), (''error'', ''No frames found for video ID 00002'')]]"
    by simp
  have i0: "0 < length example_batch" and i1: "1 < length example_batch" by (simp_all add: len)
  from nth i0 q0 have "results ! 0 = process_question example_env 0 (''00001'', ''Q1'')" by force
  with results have a: "process_question example_env 0 (''00001'', ''Q1'')
       = [(''video_id'', ''00001''), (''answer'', ''<answer>B</answer>''), (''finish_reason'', ''stop'')]"
    by simp
  from nth i1 q1 have "results ! 1 = process_question example_env 1 (''00002'', ''Q2'')" by force
  with results have b: "process_question example_env 1 (''00002'', ''Q2'')
       = [(''video_id'', ''00002''), (''error'', ''No frames found for video ID 00002'')]"
    by simp
  from nth' i0 q0 have "results' ! 0 = process_question_gemini_pro example_env 0 (''00001'', ''Q1'')"
    by force
  with results' have c: "process_question_gemini_pro example_env 0 (''00001'', ''Q1'')
       = [(''video_id'', ''00001''), (''answer'', ''<answer>B</answer>'')]"
    by simp
  from nth' i1 q1 have "results' ! 1 = process_question_gemini_pro example_env 1 (''00002'', ''Q2'')"
    by force
  with results' have d: "process_question_gemini_pro example_env 1 (''00002'', ''Q2'')
       = [(''video_id'', ''00002''), (''error'', ''No frames found for video ID 00002'')]"
    by simp
  from example_batch_work_items len process_batch_example process_batch_gemini_pro_example a b c d
  show ?thesis by simp
qed

subsection \<open>The requests that reach the provider\<close>

lemma step_cases [consumes 1, case_names Return Suspend Resume]:
  assumes "runnable s j"
  obtains
    (Return) v u d w where "j < length (tasks s)" "tasks s ! j = Pending v u" "0 < sem_value s"
      "b j v u (world s) = (Return d, w)"
      "step b r j s = s\<lparr>tasks := (tasks s)[j := Finished d], world := w\<rparr>"
  | (Suspend) v u k w where "j < length (tasks s)" "tasks s ! j = Pending v u" "0 < sem_value s"
      "b j v u (world s) = (Suspend k, w)"
      "step b r j s = s\<lparr>sem_value := sem_value s - 1, tasks := (tasks s)[j := Suspended k], world := w\<rparr>"
  | (Resume) k d w where "j < length (tasks s)" "tasks s ! j = Suspended k"
      "r j k (world s) = (d, w)"
      "step b r j s = s\<lparr>sem_value := sem_value s + 1, tasks := (tasks s)[j := Finished d], world := w\<rparr>"
proof -
  from assms have j: "j < length (tasks s)" by (simp add: runnable_def)
  show ?thesis
  proof (cases "tasks s ! j")
    case (Pending v u)
    with assms have pos: "0 < sem_value s" by (simp add: runnable_def locked_def)
    obtain out w where bw: "b j v u (world s) = (out, w)" by (cases "b j v u (world s)")
    show ?thesis
    proof (cases out)
      case (Return d)
      with Pending pos bw j have
        "step b r j s = s\<lparr>tasks := (tasks s)[j := Finished d], world := w\<rparr>"
        by (simp add: step_def locked_def acquire_def release_def)
      with Pending pos bw j Return show ?thesis by (intro that(1)) simp_all
    next
      case (Suspend k)
      with Pending pos bw j have
        "step b r j s = s\<lparr>sem_value := sem_value s - 1, tasks := (tasks s)[j := Suspended k], world := w\<rparr>"
        by (simp add: step_def locked_def acquire_def release_def)
      with Pending pos bw j Suspend show ?thesis by (intro that(2)) simp_all
    qed
  next
    case (Suspended k)
    obtain d w where rw: "r j k (world s) = (d, w)" by (cases "r j k (world s)")
    with Suspended j have
      "step b r j s = s\<lparr>sem_value := sem_value s + 1, tasks := (tasks s)[j := Finished d], world := w\<rparr>"
      by (simp add: step_def release_def)
    with Suspended rw j show ?thesis by (intro that(3)) simp_all
  next
    case (Finished d)
    with assms show ?thesis by (simp add: runnable_def)
  qed
qed

definition is_pending :: "'k task \<Rightarrow> bool" where
  "is_pending t = (case t of Pending _ _ \<Rightarrow> True | _ \<Rightarrow> False)"

text \<open>
  \<open>sends_only b r may_send\<close>: the head run for task \<open>i\<close> adds at most \<open>i\<close> to the list of
  requests sent, and only if \<open>may_send\<close> allows it for its arguments; the tail sends
  nothing.
\<close>

definition sends_only ::
  "('k, nat list) head_piece \<Rightarrow> ('k, nat list) tail_piece \<Rightarrow> (string \<times> string \<Rightarrow> bool) \<Rightarrow> bool" where
  "sends_only b r may_send =
     ((\<forall>i v u w. snd (b i v u w) = w \<or> (may_send (v, u) \<and> snd (b i v u w) = w @ [i]))
      \<and> (\<forall>i k w. snd (r i k w) = w))"

text \<open>
  \<open>sent_safe may_send items s\<close>: a pending task still has the arguments of its item, and
  every task whose request was sent was allowed to send and is past its
  \<^verbatim>\<open>async with\<close> entry.
\<close>

definition sent_safe ::
  "(string \<times> string \<Rightarrow> bool) \<Rightarrow> (string \<times> string) list \<Rightarrow> ('k, nat list) loop \<Rightarrow> bool" where
  "sent_safe may_send items s =
     (length (tasks s) = length items
      \<and> (\<forall>i < length items. \<forall>v u. tasks s ! i = Pending v u \<longrightarrow> (v, u) = items ! i)
      \<and> (\<forall>i \<in> set (world s). i < length items \<and> may_send (items ! i) \<and> \<not> is_pending (tasks s ! i)))"

lemma sent_safe_initial:
  "sent_safe may_send items (initial n (map (\<lambda>(v, u). Pending v u) items) [])"
  by (simp add: sent_safe_def initial_def split_beta)

lemma sent_safe_step:
  assumes so: "sends_only b r may_send" and ss: "sent_safe may_send items s" and run: "runnable s j"
  shows "sent_safe may_send items (step b r j s)"
proof -
  from ss have len: "length (tasks s) = length items" by (simp add: sent_safe_def)
  from ss have pend: "\<And>i v u. i < length items \<Longrightarrow> tasks s ! i = Pending v u \<Longrightarrow> (v, u) = items ! i"
    by (simp add: sent_safe_def)
  from ss have sent: "\<And>i. i \<in> set (world s) \<Longrightarrow>
      i < length items \<and> may_send (items ! i) \<and> \<not> is_pending (tasks s ! i)"
    by (simp add: sent_safe_def)
  from so have head: "\<And>i v u w. snd (b i v u w) = w \<or> (may_send (v, u) \<and> snd (b i v u w) = w @ [i])"
    and tail: "\<And>i k w. snd (r i k w) = w"
    by (simp_all add: sends_only_def)
  from run show ?thesis
  proof (cases rule: step_cases [where b = b and r = r])
    case (Return v u d w)
    from pend [of j v u] Return len have item: "(v, u) = items ! j" by simp
    from head [of j v u "world s"] Return item
    have w: "w = world s \<or> (may_send (items ! j) \<and> w = world s @ [j])" by simp
    have "i < length items \<and> may_send (items ! i) \<and> \<not> is_pending ((tasks s)[j := Finished d] ! i)"
      if "i \<in> set w" for i
    proof (cases "i = j")
      case True
      with w that sent [of j] Return(1) len show ?thesis by (auto simp: is_pending_def)
    next
      case False
      with w that have "i \<in> set (world s)" by auto
      with sent [of i] False show ?thesis by simp
    qed
    with Return len pend show ?thesis by (simp add: sent_safe_def nth_list_update)
  next
    case (Suspend v u k w)
    from pend [of j v u] Suspend len have item: "(v, u) = items ! j" by simp
    from head [of j v u "world s"] Suspend item
    have w: "w = world s \<or> (may_send (items ! j) \<and> w = world s @ [j])" by simp
    have "i < length items \<and> may_send (items ! i) \<and> \<not> is_pending ((tasks s)[j := Suspended k] ! i)"
      if "i \<in> set w" for i
    proof (cases "i = j")
      case True
      with w that sent [of j] Suspend(1) len show ?thesis by (auto simp: is_pending_def)
    next
      case False
      with w that have "i \<in> set (world s)" by auto
      with sent [of i] False show ?thesis by simp
    qed
    with Suspend len pend show ?thesis by (simp add: sent_safe_def nth_list_update)
  next
    case (Resume k d w)
    from tail [of j k "world s"] Resume have w: "w = world s" by simp
    have "i < length items \<and> may_send (items ! i) \<and> \<not> is_pending ((tasks s)[j := Finished d] ! i)"
      if "i \<in> set w" for i
    proof (cases "i = j")
      case True
      with w that sent [of j] Resume(1) len show ?thesis by (auto simp: is_pending_def)
    next
      case False
      with w that sent [of i] show ?thesis by simp
    qed
    with Resume len pend show ?thesis by (simp add: sent_safe_def nth_list_update)
  qed
qed

lemma sent_safe_exec:
  "sends_only b r may_send \<Longrightarrow> sent_safe may_send items s \<Longrightarrow> sent_safe may_send items (exec b r cs s)"
  by (rule exec_induct_inv [where P = "sent_safe may_send items"]) (simp_all add: sent_safe_step)

lemma sent_safe_event_loop:
  "sends_only b r may_send \<Longrightarrow> sent_safe may_send items s
     \<Longrightarrow> sent_safe may_send items (event_loop b r cs s)"
  by (rule event_loop_induct_inv [where P = "sent_safe may_send items"]) (simp_all add: sent_safe_step)

subsection \<open>The state of a batch run\<close>

text \<open>
  The state of the event loop while \<^verbatim>\<open>process_batch\<close> awaits \<^verbatim>\<open>gather\<close>, after the
  scheduling decisions \<open>cs\<close>, and the state in which the loop ends.
\<close>

definition batch_snapshot ::
  "env \<Rightarrow> nat \<Rightarrow> nat list \<Rightarrow> dict list \<Rightarrow> exn + (string \<times> part list, nat list) loop" where
  "batch_snapshot env max_concurrent_requests cs questions =
     (case make_tasks questions of
        Inl e \<Rightarrow> Inl e
      | Inr ts \<Rightarrow>
          Inr (exec (process_question_head env) (process_question_tail env) cs
                 (initial max_concurrent_requests ts [])))"

definition batch_final ::
  "env \<Rightarrow> nat \<Rightarrow> nat list \<Rightarrow> dict list \<Rightarrow> exn + (string \<times> part list, nat list) loop" where
  "batch_final env max_concurrent_requests cs questions =
     (case make_tasks questions of
        Inl e \<Rightarrow> Inl e
      | Inr ts \<Rightarrow>
          Inr (event_loop (process_question_head env) (process_question_tail env) cs
                 (initial max_concurrent_requests ts [])))"

definition batch_snapshot_gemini_pro ::
  "env \<Rightarrow> nat \<Rightarrow> nat list \<Rightarrow> dict list \<Rightarrow> exn + (unit, nat list) loop" where
  "batch_snapshot_gemini_pro env max_concurrent_requests cs questions =
     (case make_tasks questions of
        Inl e \<Rightarrow> Inl e
      | Inr ts \<Rightarrow>
          Inr (exec (process_question_gemini_pro_head env) no_tail cs
                 (initial max_concurrent_requests ts [])))"

lemma make_tasks_Inr:
  "make_tasks qs = Inr ts \<Longrightarrow>
     list_all work_item qs \<and> ts = map (\<lambda>(v, u). Pending v u) (map item_of qs)"
proof (induction qs arbitrary: ts)
  case Nil
  then show ?case by simp
next
  case (Cons q qs)
  from Cons.prems obtain v u ts' where
    "getitem q ''id'' = Inr v" "getitem q ''question'' = Inr u" "make_tasks qs = Inr ts'"
    "ts = Pending v u # ts'"
    by (auto split: sum.splits)
  with Cons.IH [of ts'] show ?case
    by (auto simp: work_item_def item_of_def getitem_def split: option.splits)
qed

lemma batch_snapshot_Inr:
  assumes "batch_snapshot env n cs questions = Inr s"
  shows "list_all work_item questions"
    and "s = exec (process_question_head env) (process_question_tail env) cs
               (initial n (map (\<lambda>(v, u). Pending v u) (map item_of questions)) [])"
  using assms make_tasks_Inr [of questions]
  by (auto simp: batch_snapshot_def split: sum.splits)

lemma batch_final_Inr:
  assumes "batch_final env n cs questions = Inr s"
  shows "list_all work_item questions"
    and "s = event_loop (process_question_head env) (process_question_tail env) cs
               (initial n (map (\<lambda>(v, u). Pending v u) (map item_of questions)) [])"
  using assms make_tasks_Inr [of questions]
  by (auto simp: batch_final_def split: sum.splits)

lemma batch_snapshot_gemini_pro_Inr:
  assumes "batch_snapshot_gemini_pro env n cs questions = Inr s"
  shows "list_all work_item questions"
    and "s = exec (process_question_gemini_pro_head env) no_tail cs
               (initial n (map (\<lambda>(v, u). Pending v u) (map item_of questions)) [])"
  using assms make_tasks_Inr [of questions]
  by (auto simp: batch_snapshot_gemini_pro_def split: sum.splits)

lemma sends_only_process_question:
  "sends_only (process_question_head env) (process_question_tail env)
     (\<lambda>item. get_frame_paths env ''extracted_frames_8'' (fst item) \<noteq> [])"
  by (simp add: sends_only_def process_question_head_def process_question_tail_def Let_def
      split: sum.splits prod.splits list.splits)

lemma sends_only_process_question_gemini_pro:
  "sends_only (process_question_gemini_pro_head env) no_tail
     (\<lambda>item. get_frame_paths env ''extracted_frames'' (fst item) \<noteq> [])"
  by (simp add: sends_only_def process_question_gemini_pro_head_def no_tail_def Let_def
      split: sum.splits)

text \<open>
  C2. At every instant of a batch run of the 8-frame script, that is after any number of
  scheduling decisions of any schedule (the provider may answer the calls in any order
  and after any delay), for any batch and any frame store, the number of tasks
  suspended in \<^verbatim>\<open>await self.client.chat.completions.create(...)\<close>, which is the number
  of calls in flight, is at most the number of permits the semaphore was made with.
\<close>

theorem in_flight_never_exceeds_permits:
  assumes "batch_snapshot env n cs questions = Inr s"
  shows "in_flight s \<le> n"
proof -
  let ?init = "initial n (map (\<lambda>(v, u). Pending v u) (map item_of questions)) []
                 :: (string \<times> part list, nat list) loop"
  from assms have s: "s = exec (process_question_head env) (process_question_tail env) cs ?init"
    by (rule batch_snapshot_Inr)
  have "sem_value s + in_flight s = sem_value ?init + in_flight ?init"
    unfolding s by (rule permits_exec)
  moreover have "in_flight ?init = 0" by (rule in_flight_initial_pending)
  moreover have "sem_value ?init = n" by (simp add: initial_def)
  ultimately show ?thesis by simp
qed

definition example_env_all_frames :: env where
  "example_env_all_frames = example_env\<lparr>glob := (\<lambda>dir. [dir @ ''/frame_0001.jpg''])\<rparr>"


theorem in_flight_never_exceeds_permits_witness:
  "batch_snapshot example_env_all_frames 2 [0, 1] example_batch =
     Inr \<lparr>sem_value = 0,
          tasks = [Suspended (''00001'', [Text ''Q1'', Image_url ''data:image/jpeg;base64,QUJD'']),
                   Suspended (''00002'', [Text ''Q2'', Image_url ''data:image/jpeg;base64,QUJD''])],
          world = [0, 1]\<rparr>
   \<and> in_flight
        \<lparr>sem_value = 0,
         tasks = [Suspended (''00001'', [Text ''Q1'', Image_url ''data:image/jpeg;base64,QUJD'']),
                  Suspended (''00002'', [Text ''Q2'', Image_url ''data:image/jpeg;base64,QUJD''])],
         world = [0, 1 :: nat]\<rparr> \<le> 2"
proof -
  have ev: "batch_snapshot example_env_all_frames 2 [0, 1] example_batch =
     Inr \<lparr>sem_value = 0,
          tasks = [Suspended (''00001'', [Text ''Q1'', Image_url ''data:image/jpeg;base64,QUJD'']),
                   Suspended (''00002'', [Text ''Q2'', Image_url ''data:image/jpeg;base64,QUJD''])],
          world = [0, 1]\<rparr>"
    by code_simp
  from in_flight_never_exceeds_permits [OF ev] ev show ?thesis by simp
qed

lemma sent_safe_snapshot:
  assumes "batch_snapshot env n cs questions = Inr s"
  shows "sent_safe (\<lambda>item. get_frame_paths env ''extracted_frames_8'' (fst item) \<noteq> [])
           (map item_of questions) s"
  unfolding batch_snapshot_Inr(2) [OF assms]
  using sends_only_process_question sent_safe_initial by (rule sent_safe_exec)

lemma sent_safe_snapshot_gemini_pro:
  assumes "batch_snapshot_gemini_pro env n cs questions = Inr s"
  shows "sent_safe (\<lambda>item. get_frame_paths env ''extracted_frames'' (fst item) \<noteq> [])
           (map item_of questions) s"
  unfolding batch_snapshot_gemini_pro_Inr(2) [OF assms]
  using sends_only_process_question_gemini_pro sent_safe_initial by (rule sent_safe_exec)

text \<open>
  C6. In the 8-frame script, at every instant of a batch run the permits are accounted
  for: the free permits plus the tasks suspended inside \<^verbatim>\<open>async with self.semaphore\<close>
  are the \<open>n\<close> permits the semaphore was made with, and a request has reached the
  provider only from a task that has entered \<^verbatim>\<open>async with\<close>, that is after it acquired
  its permit. When the event loop ends, however each call ended (the provider and the
  frame store are arbitrary, so a call may return or raise), no task holds a permit and
  the counter is \<open>n\<close> again.
\<close>

theorem permits_acquired_before_call_and_restored:
  assumes "batch_snapshot env n cs questions = Inr s"
    and "batch_final env n cs' questions = Inr s'"
  shows "sem_value s + in_flight s = n
       \<and> (\<forall>i \<in> set (world s). i < length (tasks s) \<and> \<not> is_pending (tasks s ! i))
       \<and> in_flight s' = 0
       \<and> sem_value s' = n"
proof (intro conjI)
  let ?init = "initial n (map (\<lambda>(v, u). Pending v u) (map item_of questions)) []
                 :: (string \<times> part list, nat list) loop"
  have init: "in_flight ?init = 0" "sem_value ?init = n"
    by (rule in_flight_initial_pending) (simp add: initial_def)
  from assms(1) have s: "s = exec (process_question_head env) (process_question_tail env) cs ?init"
    by (rule batch_snapshot_Inr)
  have "sem_value s + in_flight s = sem_value ?init + in_flight ?init"
    unfolding s by (rule permits_exec)
  with init show "sem_value s + in_flight s = n" by simp
  from sent_safe_snapshot [OF assms(1)]
  show "\<forall>i \<in> set (world s). i < length (tasks s) \<and> \<not> is_pending (tasks s ! i)"
    by (simp add: sent_safe_def)
  from assms(2) have s': "s' = event_loop (process_question_head env) (process_question_tail env) cs' ?init"
    by (rule batch_final_Inr)
  show "in_flight s' = 0"
    unfolding s' using event_loop_quiescent by (rule quiescent_no_suspended)
  show "sem_value s' = n"
    unfolding s' by (rule sem_value_event_loop_initial)
qed

theorem permits_acquired_before_call_and_restored_witness:
  "batch_snapshot example_env 1 [0] example_batch =
     Inr \<lparr>sem_value = 0,
          tasks = [Suspended (''00001'', [Text ''Q1'', Image_url ''data:image/jpeg;base64,QUJD'']),
                   Pending ''00002'' ''Q2''],
          world = [0]\<rparr>
   \<and> batch_final example_env 1 [] example_batch =
     Inr \<lparr>sem_value = 1,
          tasks = [Finished [(''video_id'', ''00001''), (''answer'', ''<answer>B</answer>''),
                             (''finish_reason'', ''stop'')],
                   Finished [(''video_id'', ''00002''),
                             (''error'', ''No frames found for video ID 00002'')]],
          world = [0]\<rparr>
   \<and> (0::nat) + in_flight
        \<lparr>sem_value = 0,
         tasks = [Suspended (''00001'', [Text ''Q1'', Image_url ''data:image/jpeg;base64,QUJD'']),
                  Pending ''00002'' ''Q2''],
         world = [0 :: nat]\<rparr> = 1"
proof -
  have snap: "batch_snapshot example_env 1 [0] example_batch =
     Inr \<lparr>sem_value = 0,
          tasks = [Suspended (''00001'', [Text ''Q1'', Image_url ''data:image/jpeg;base64,QUJD'']),
                   Pending ''00002'' ''Q2''],
          world = [0]\<rparr>"
    by code_simp
  have fin: "batch_final example_env 1 [] example_batch =
     Inr \<lparr>sem_value = 1,
          tasks = [Finished [(''video_id'', ''00001''), (''answer'', ''<answer>B</answer>''),
                             (''finish_reason'', ''stop'')],
                   Finished [(''video_id'', ''00002''),
                             (''error'', ''No frames found for video ID 00002'')]],
          world = [0]\<rparr>"
    by code_simp
  from permits_acquired_before_call_and_restored [OF snap fin] snap fin
  show ?thesis by simp
qed

subsection \<open>Items without frames\<close>

lemma process_question_no_frames:
  "get_frame_paths env ''extracted_frames_8'' v = [] \<Longrightarrow>
     process_question env i (v, u)
       = [(''video_id'', v), (''error'', ''No frames found for video ID '' @ v)]"
  by (simp add: process_question_def process_question_head_def error_result_def)

lemma process_question_gemini_pro_no_frames:
  "get_frame_paths env ''extracted_frames'' v = [] \<Longrightarrow>
     process_question_gemini_pro env i (v, u)
       = [(''video_id'', v), (''error'', ''No frames found for video ID '' @ v)]"
  by (simp add: process_question_gemini_pro_def process_question_gemini_pro_head_def error_result_def)

text \<open>
  C3. Let the \<open>i\<close>-th work item of a batch have the identifier \<open>video_id\<close>, and let the
  frame store have no \<^verbatim>\<open>frame_*.jpg\<close> for it (\<^verbatim>\<open>get_frame_paths\<close> returns the empty
  list). Then, under every schedule, the \<open>i\<close>-th result of \<^verbatim>\<open>process_batch\<close> is the
  error record \<^verbatim>\<open>{"video_id": video_id, "error": "No frames found for video ID ..."}\<close>,
  and at no instant of the run has a request of task \<open>i\<close> reached the provider. This
  holds for the 8-frame script and for \<^verbatim>\<open>gemini_pro.py\<close>, each with its own frame
  directory.
\<close>

theorem no_frames_error_result_and_no_call:
  assumes "list_all work_item questions" and "0 < n" and "i < length questions"
    and "map_of (questions ! i) ''id'' = Some video_id"
  shows "(get_frame_paths env ''extracted_frames_8'' video_id = [] \<longrightarrow>
            (\<exists>results. process_batch env n cs questions = Returned results
               \<and> results ! i = [(''video_id'', video_id),
                                 (''error'', ''No frames found for video ID '' @ video_id)])
            \<and> (\<forall>s. batch_snapshot env n cs' questions = Inr s \<longrightarrow> i \<notin> set (world s)))
       \<and> (get_frame_paths env ''extracted_frames'' video_id = [] \<longrightarrow>
            (\<exists>results. process_batch_gemini_pro env n cs questions = Returned results
               \<and> results ! i = [(''video_id'', video_id),
                                 (''error'', ''No frames found for video ID '' @ video_id)])
            \<and> (\<forall>s. batch_snapshot_gemini_pro env n cs' questions = Inr s \<longrightarrow> i \<notin> set (world s)))"
proof -
  from assms(1,3) have "work_item (questions ! i)" by (simp add: list_all_length)
  with assms(4) have item: "fst (item_of (questions ! i)) = video_id"
    by (simp add: work_item_id)
  then have item': "item_of (questions ! i) = (video_id, snd (item_of (questions ! i)))"
    by (cases "item_of (questions ! i)") simp
  have a: "\<exists>results. process_batch env n cs questions = Returned results
               \<and> results ! i = [(''video_id'', video_id),
                                 (''error'', ''No frames found for video ID '' @ video_id)]"
    if "get_frame_paths env ''extracted_frames_8'' video_id = []"
    using process_batch_eq [OF assms(1,2), of env cs] assms(3) item'
      process_question_no_frames [OF that, of i "snd (item_of (questions ! i))"]
    by simp
  have b: "i \<notin> set (world s)"
    if nf: "get_frame_paths env ''extracted_frames_8'' video_id = []"
      and snap: "batch_snapshot env n cs' questions = Inr s" for s
  proof
    assume "i \<in> set (world s)"
    with sent_safe_snapshot [OF snap] assms(3)
    have "get_frame_paths env ''extracted_frames_8'' (fst (item_of (questions ! i))) \<noteq> []"
      by (auto simp: sent_safe_def)
    with item nf show False by simp
  qed
  have c: "\<exists>results. process_batch_gemini_pro env n cs questions = Returned results
               \<and> results ! i = [(''video_id'', video_id),
                                 (''error'', ''No frames found for video ID '' @ video_id)]"
    if "get_frame_paths env ''extracted_frames'' video_id = []"
    using process_batch_gemini_pro_eq [OF assms(1,2), of env cs] assms(3) item'
      process_question_gemini_pro_no_frames [OF that, of i "snd (item_of (questions ! i))"]
    by simp
  have d: "i \<notin> set (world s)"
    if nf: "get_frame_paths env ''extracted_frames'' video_id = []"
      and snap: "batch_snapshot_gemini_pro env n cs' questions = Inr s" for s
  proof
    assume "i \<in> set (world s)"
    with sent_safe_snapshot_gemini_pro [OF snap] assms(3)
    have "get_frame_paths env ''extracted_frames'' (fst (item_of (questions ! i))) \<noteq> []"
      by (auto simp: sent_safe_def)
    with item nf show False by simp
  qed
  from a b c d show ?thesis by blast
qed

lemma example_no_frames:
  "get_frame_paths example_env ''extracted_frames_8'' ''00002'' = []"
  "get_frame_paths example_env ''extracted_frames'' ''00002'' = []"
  by (simp_all add: get_frame_paths_def example_env_def)

theorem no_frames_error_result_and_no_call_witness:
  "list_all work_item example_batch \<and> (0::nat) < 1 \<and> (1::nat) < length example_batch
   \<and> map_of (example_batch ! 1) ''id'' = Some ''00002''
   \<and> get_frame_paths example_env ''extracted_frames_8'' ''00002'' = []
   \<and> get_frame_paths example_env ''extracted_frames'' ''00002'' = []
   \<and> (\<exists>results. process_batch example_env 1 [] example_batch = Returned results
         \<and> results ! 1 = [(''video_id'', ''00002''),
                           (''error'', ''No frames found for video ID 00002'')])
   \<and> (\<exists>s. batch_snapshot example_env 1 [0, 0, 0] example_batch = Inr s \<and> 1 \<notin> set (world s))
   \<and> (\<exists>results. process_batch_gemini_pro example_env 1 [] example_batch = Returned results
         \<and> results ! 1 = [(''video_id'', ''00002''),
                           (''error'', ''No frames found for video ID 00002'')])
   \<and> (\<exists>s. batch_snapshot_gemini_pro example_env 1 [0, 0] example_batch = Inr s
         \<and> 1 \<notin> set (world s))"
proof -
  have len: "(1::nat) < length example_batch" by (simp add: example_batch_def)
  have id: "map_of (example_batch ! 1) ''id'' = Some ''00002''" by (simp add: example_batch_def)
  have snap: "\<exists>s. batch_snapshot example_env 1 [0, 0, 0] example_batch = Inr s"
    using example_batch_work_items
    by (simp add: batch_snapshot_def make_tasks_work_items)
  have snap_gp: "\<exists>s. batch_snapshot_gemini_pro example_env 1 [0, 0] example_batch = Inr s"
    using example_batch_work_items
    by (simp add: batch_snapshot_gemini_pro_def make_tasks_work_items)
  from no_frames_error_result_and_no_call
         [OF example_batch_work_items _ len id, of 1 example_env "[]" "[0, 0, 0]"]
       no_frames_error_result_and_no_call
         [OF example_batch_work_items _ len id, of 1 example_env "[]" "[0, 0]"]
       example_no_frames snap snap_gp example_batch_work_items len id
  show ?thesis by (simp del: One_nat_def) blast
qed

subsection \<open>A failure stays with its item\<close>

text \<open>
  Two worlds agree on what the call for the work item at position \<open>j\<close> reads: the
  listing of its frame directory, the files of its frames, its prompt, and the way the
  provider ends its call.
\<close>

definition same_for_item :: "env \<Rightarrow> env \<Rightarrow> nat \<Rightarrow> string \<times> string \<Rightarrow> bool" where
  "same_for_item env env' j item =
     (case item of (video_id, question) \<Rightarrow>
        glob env' (''extracted_frames_8'' @ ''/'' @ video_id)
          = glob env (''extracted_frames_8'' @ ''/'' @ video_id)
        \<and> glob env' (''extracted_frames'' @ ''/'' @ video_id)
          = glob env (''extracted_frames'' @ ''/'' @ video_id)
        \<and> (\<forall>path \<in> set (glob env (''extracted_frames_8'' @ ''/'' @ video_id)).
              encode_image env' path = encode_image env path)
        \<and> (\<forall>path \<in> set (glob env (''extracted_frames'' @ ''/'' @ video_id)).
              image_part env' path = image_part env path)
        \<and> create_prompt env' question = create_prompt env question
        \<and> chat_create env' j = chat_create env j
        \<and> generate_content env' j = generate_content env j)"

lemma add_frames_cong:
  "\<forall>path \<in> set paths. encode_image env' path = encode_image env path \<Longrightarrow>
     add_frames env' paths content = add_frames env paths content"
  by (induction paths arbitrary: content) (simp_all split: sum.splits)

lemma add_image_parts_cong:
  "\<forall>path \<in> set paths. image_part env' path = image_part env path \<Longrightarrow>
     add_image_parts env' paths parts = add_image_parts env paths parts"
  by (induction paths arbitrary: parts) (simp_all split: sum.splits)

lemma process_question_same_for_item:
  assumes "same_for_item env env' j item"
  shows "process_question env' j item = process_question env j item"
proof -
  obtain v u where item: "item = (v, u)" by (cases item)
  let ?paths = "get_frame_paths env ''extracted_frames_8'' v"
  from assms have paths: "get_frame_paths env' ''extracted_frames_8'' v = ?paths"
    and files: "\<forall>path \<in> set ?paths. encode_image env' path = encode_image env path"
    and prompt: "create_prompt env' u = create_prompt env u"
    and call: "chat_create env' j = chat_create env j"
    by (simp_all add: same_for_item_def item get_frame_paths_def)
  have frames: "add_frames env' ?paths content = add_frames env ?paths content" for content
    using files by (rule add_frames_cong)
  have head: "process_question_head env' j v u w = process_question_head env j v u w" for w
    unfolding process_question_head_def Let_def by (simp only: paths frames prompt)
  have tail: "process_question_tail env' j k w = process_question_tail env j k w" for k w
    unfolding process_question_tail_def by (simp only: call)
  show ?thesis
    unfolding item process_question_def by (simp only: prod.case head tail)
qed

lemma process_question_gemini_pro_same_for_item:
  assumes "same_for_item env env' j item"
  shows "process_question_gemini_pro env' j item = process_question_gemini_pro env j item"
proof -
  obtain v u where item: "item = (v, u)" by (cases item)
  let ?paths = "get_frame_paths env ''extracted_frames'' v"
  from assms have paths: "get_frame_paths env' ''extracted_frames'' v = ?paths"
    and files: "\<forall>path \<in> set ?paths. image_part env' path = image_part env path"
    and prompt: "create_prompt env' u = create_prompt env u"
    and call: "generate_content env' j = generate_content env j"
    by (simp_all add: same_for_item_def item get_frame_paths_def)
  have parts: "add_image_parts env' ?paths ps = add_image_parts env ?paths ps" for ps
    using files by (rule add_image_parts_cong)
  have head: "process_question_gemini_pro_head env' j v u w
                = process_question_gemini_pro_head env j v u w" for w
    unfolding process_question_gemini_pro_head_def Let_def by (simp only: paths parts prompt call)
  show ?thesis
    unfolding item process_question_gemini_pro_def by (simp only: prod.case head)
qed

text \<open>Every way through the \<^verbatim>\<open>try\<close> block of the 8-frame script, and what it returns.\<close>

lemma process_question_paths:
  assumes "frame_paths = get_frame_paths env ''extracted_frames_8'' v"
  shows "frame_paths = [] \<Longrightarrow>
           process_question env i (v, u)
             = [(''video_id'', v), (''error'', ''No frames found for video ID '' @ v)]"
    and "frame_paths \<noteq> [] \<Longrightarrow> add_frames env frame_paths [Text (create_prompt env u)] = Inl e \<Longrightarrow>
           process_question env i (v, u) = [(''video_id'', v), (''error'', str e)]"
    and "frame_paths \<noteq> [] \<Longrightarrow> add_frames env frame_paths [Text (create_prompt env u)] = Inr content \<Longrightarrow>
           chat_create env i content = Inl e \<Longrightarrow>
           process_question env i (v, u) = [(''video_id'', v), (''error'', str e)]"
    and "frame_paths \<noteq> [] \<Longrightarrow> add_frames env frame_paths [Text (create_prompt env u)] = Inr content \<Longrightarrow>
           chat_create env i content = Inr [] \<Longrightarrow>
           process_question env i (v, u) = [(''video_id'', v), (''error'', ''list index out of range'')]"
    and "frame_paths \<noteq> [] \<Longrightarrow> add_frames env frame_paths [Text (create_prompt env u)] = Inr content \<Longrightarrow>
           chat_create env i content = Inr (c # cs) \<Longrightarrow>
           process_question env i (v, u)
             = [(''video_id'', v), (''answer'', message_content c), (''finish_reason'', finish_reason c)]"
  using assms
  by (simp_all add: process_question_def process_question_head_def process_question_tail_def
      error_result_def)

text \<open>The same for \<^verbatim>\<open>gemini_pro.py\<close>.\<close>

lemma process_question_gemini_pro_paths:
  assumes "frame_paths = get_frame_paths env ''extracted_frames'' v"
  shows "frame_paths = [] \<Longrightarrow>
           process_question_gemini_pro env i (v, u)
             = [(''video_id'', v), (''error'', ''No frames found for video ID '' @ v)]"
    and "frame_paths \<noteq> [] \<Longrightarrow> add_image_parts env frame_paths [] = Inl e \<Longrightarrow>
           process_question_gemini_pro env i (v, u) = [(''video_id'', v), (''error'', str e)]"
    and "frame_paths \<noteq> [] \<Longrightarrow> add_image_parts env frame_paths [] = Inr image_parts \<Longrightarrow>
           generate_content env i (Text (create_prompt env u) # image_parts) = Inl e \<Longrightarrow>
           process_question_gemini_pro env i (v, u) = [(''video_id'', v), (''error'', str e)]"
    and "frame_paths \<noteq> [] \<Longrightarrow> add_image_parts env frame_paths [] = Inr image_parts \<Longrightarrow>
           generate_content env i (Text (create_prompt env u) # image_parts) = Inr (Inl e) \<Longrightarrow>
           process_question_gemini_pro env i (v, u) = [(''video_id'', v), (''error'', str e)]"
    and "frame_paths \<noteq> [] \<Longrightarrow> add_image_parts env frame_paths [] = Inr image_parts \<Longrightarrow>
           generate_content env i (Text (create_prompt env u) # image_parts) = Inr (Inr answer) \<Longrightarrow>
           process_question_gemini_pro env i (v, u) = [(''video_id'', v), (''answer'', answer)]"
  using assms
  by (simp_all add: process_question_gemini_pro_def process_question_gemini_pro_head_def
      error_result_def Let_def)

text \<open>
  C4. Take a batch of work items, a semaphore with at least one permit, and two worlds
  that agree on what the calls for all items but the \<open>i\<close>-th read (they may differ in
  anything that concerns item \<open>i\<close> only: its frames, the files of its frames, the
  provider's answer to its call). In both worlds and under any two schedules
  \<^verbatim>\<open>process_batch\<close> returns (the batch is not aborted), and the results of all other
  items are the same in both: they depend on the outcome of their own call only.
  Whatever is raised inside the \<^verbatim>\<open>try\<close> block for item \<open>i\<close> is turned into the error
  record of item \<open>i\<close>: no frames gives \<^verbatim>\<open>No frames found ...\<close>; an exception \<open>e\<close> from
  reading a frame, from the call to the provider, or from reading the response (an
  empty list of choices, a \<^verbatim>\<open>response.text\<close> that raises) gives
  \<^verbatim>\<open>{"video_id": ..., "error": str(e)}\<close>; and only a call that returns gives the success
  record with the provider's answer. This holds for the 8-frame script and for
  \<^verbatim>\<open>gemini_pro.py\<close>.
\<close>

theorem failure_stays_with_its_item:
  assumes "list_all work_item questions" and "0 < n" and "i < length questions"
    and "\<forall>j < length questions. j \<noteq> i \<longrightarrow> same_for_item env env' j (item_of (questions ! j))"
    and "item_of (questions ! i) = (v, u)"
    and "frame_paths = get_frame_paths env ''extracted_frames_8'' v"
    and "frame_paths' = get_frame_paths env ''extracted_frames'' v"
  shows "(\<exists>results results'.
            process_batch env n cs questions = Returned results
            \<and> process_batch env' n cs' questions = Returned results'
            \<and> length results = length questions \<and> length results' = length questions
            \<and> (\<forall>j < length questions. j \<noteq> i \<longrightarrow> results' ! j = results ! j)
            \<and> (frame_paths = [] \<longrightarrow>
                  results ! i = [(''video_id'', v), (''error'', ''No frames found for video ID '' @ v)])
            \<and> (\<forall>e. frame_paths \<noteq> []
                  \<longrightarrow> add_frames env frame_paths [Text (create_prompt env u)] = Inl e
                  \<longrightarrow> results ! i = [(''video_id'', v), (''error'', str e)])
            \<and> (\<forall>content e. frame_paths \<noteq> []
                  \<longrightarrow> add_frames env frame_paths [Text (create_prompt env u)] = Inr content
                  \<longrightarrow> chat_create env i content = Inl e
                  \<longrightarrow> results ! i = [(''video_id'', v), (''error'', str e)])
            \<and> (\<forall>content. frame_paths \<noteq> []
                  \<longrightarrow> add_frames env frame_paths [Text (create_prompt env u)] = Inr content
                  \<longrightarrow> chat_create env i content = Inr []
                  \<longrightarrow> results ! i = [(''video_id'', v), (''error'', ''list index out of range'')])
            \<and> (\<forall>content c cs. frame_paths \<noteq> []
                  \<longrightarrow> add_frames env frame_paths [Text (create_prompt env u)] = Inr content
                  \<longrightarrow> chat_create env i content = Inr (c # cs)
                  \<longrightarrow> results ! i = [(''video_id'', v), (''answer'', message_content c),
                                     (''finish_reason'', finish_reason c)]))
       \<and> (\<exists>results results'.
            process_batch_gemini_pro env n cs questions = Returned results
            \<and> process_batch_gemini_pro env' n cs' questions = Returned results'
            \<and> length results = length questions \<and> length results' = length questions
            \<and> (\<forall>j < length questions. j \<noteq> i \<longrightarrow> results' ! j = results ! j)
            \<and> (frame_paths' = [] \<longrightarrow>
                  results ! i = [(''video_id'', v), (''error'', ''No frames found for video ID '' @ v)])
            \<and> (\<forall>e. frame_paths' \<noteq> []
                  \<longrightarrow> add_image_parts env frame_paths' [] = Inl e
                  \<longrightarrow> results ! i = [(''video_id'', v), (''error'', str e)])
            \<and> (\<forall>image_parts e. frame_paths' \<noteq> []
                  \<longrightarrow> add_image_parts env frame_paths' [] = Inr image_parts
                  \<longrightarrow> generate_content env i (Text (create_prompt env u) # image_parts) = Inl e
                  \<longrightarrow> results ! i = [(''video_id'', v), (''error'', str e)])
            \<and> (\<forall>image_parts e. frame_paths' \<noteq> []
                  \<longrightarrow> add_image_parts env frame_paths' [] = Inr image_parts
                  \<longrightarrow> generate_content env i (Text (create_prompt env u) # image_parts) = Inr (Inl e)
                  \<longrightarrow> results ! i = [(''video_id'', v), (''error'', str e)])
            \<and> (\<forall>image_parts answer. frame_paths' \<noteq> []
                  \<longrightarrow> add_image_parts env frame_paths' [] = Inr image_parts
                  \<longrightarrow> generate_content env i (Text (create_prompt env u) # image_parts)
                        = Inr (Inr answer)
                  \<longrightarrow> results ! i = [(''video_id'', v), (''answer'', answer)]))"
proof (intro conjI)
  let ?rs = "map (\<lambda>j. process_question env j (item_of (questions ! j))) [0..<length questions]"
  let ?rs' = "map (\<lambda>j. process_question env' j (item_of (questions ! j))) [0..<length questions]"
  have 1: "process_batch env n cs questions = Returned ?rs"
    using assms(1,2) by (rule process_batch_eq)
  have 2: "process_batch env' n cs' questions = Returned ?rs'"
    using assms(1,2) by (rule process_batch_eq)
  have 3: "\<forall>j < length questions. j \<noteq> i \<longrightarrow> ?rs' ! j = ?rs ! j"
    using assms(4) by (simp add: process_question_same_for_item)
  have at: "?rs ! i = process_question env i (v, u)" using assms(3,5) by simp
  have p1: "frame_paths = [] \<longrightarrow>
         ?rs ! i = [(''video_id'', v), (''error'', ''No frames found for video ID '' @ v)]"
    unfolding at
    by (intro allI impI, rule process_question_paths(1) [OF assms(6)], assumption+)
  have p2: "\<forall>e. frame_paths \<noteq> []
         \<longrightarrow> add_frames env frame_paths [Text (create_prompt env u)] = Inl e
         \<longrightarrow> ?rs ! i = [(''video_id'', v), (''error'', str e)]"
    unfolding at
    by (intro allI impI, rule process_question_paths(2) [OF assms(6)], assumption+)
  have p3: "\<forall>content e. frame_paths \<noteq> []
         \<longrightarrow> add_frames env frame_paths [Text (create_prompt env u)] = Inr content
         \<longrightarrow> chat_create env i content = Inl e
         \<longrightarrow> ?rs ! i = [(''video_id'', v), (''error'', str e)]"
    unfolding at
    by (intro allI impI, rule process_question_paths(3) [OF assms(6)], assumption+)
  have p4: "\<forall>content. frame_paths \<noteq> []
         \<longrightarrow> add_frames env frame_paths [Text (create_prompt env u)] = Inr content
         \<longrightarrow> chat_create env i content = Inr []
         \<longrightarrow> ?rs ! i = [(''video_id'', v), (''error'', ''list index out of range'')]"
    unfolding at
    by (intro allI impI, rule process_question_paths(4) [OF assms(6)], assumption+)
  have p5: "\<forall>content c cs. frame_paths \<noteq> []
         \<longrightarrow> add_frames env frame_paths [Text (create_prompt env u)] = Inr content
         \<longrightarrow> chat_create env i content = Inr (c # cs)
         \<longrightarrow> ?rs ! i = [(''video_id'', v), (''answer'', message_content c),
                            (''finish_reason'', finish_reason c)]"
    unfolding at
    by (intro allI impI, rule process_question_paths(5) [OF assms(6)], assumption+)
  note paths = p1 p2 p3 p4 p5
  from 1 2 3 paths show "\<exists>results results'.
            process_batch env n cs questions = Returned results
            \<and> process_batch env' n cs' questions = Returned results'
            \<and> length results = length questions \<and> length results' = length questions
            \<and> (\<forall>j < length questions. j \<noteq> i \<longrightarrow> results' ! j = results ! j)
            \<and> (frame_paths = [] \<longrightarrow>
                  results ! i = [(''video_id'', v), (''error'', ''No frames found for video ID '' @ v)])
            \<and> (\<forall>e. frame_paths \<noteq> []
                  \<longrightarrow> add_frames env frame_paths [Text (create_prompt env u)] = Inl e
                  \<longrightarrow> results ! i = [(''video_id'', v), (''error'', str e)])
            \<and> (\<forall>content e. frame_paths \<noteq> []
                  \<longrightarrow> add_frames env frame_paths [Text (create_prompt env u)] = Inr content
                  \<longrightarrow> chat_create env i content = Inl e
                  \<longrightarrow> results ! i = [(''video_id'', v), (''error'', str e)])
            \<and> (\<forall>content. frame_paths \<noteq> []
                  \<longrightarrow> add_frames env frame_paths [Text (create_prompt env u)] = Inr content
                  \<longrightarrow> chat_create env i content = Inr []
                  \<longrightarrow> results ! i = [(''video_id'', v), (''error'', ''list index out of range'')])
            \<and> (\<forall>content c cs. frame_paths \<noteq> []
                  \<longrightarrow> add_frames env frame_paths [Text (create_prompt env u)] = Inr content
                  \<longrightarrow> chat_create env i content = Inr (c # cs)
                  \<longrightarrow> results ! i = [(''video_id'', v), (''answer'', message_content c),
                                     (''finish_reason'', finish_reason c)])"
    by (intro exI [of _ ?rs] exI [of _ ?rs']) simp
next
  let ?rs = "map (\<lambda>j. process_question_gemini_pro env j (item_of (questions ! j)))
               [0..<length questions]"
  let ?rs' = "map (\<lambda>j. process_question_gemini_pro env' j (item_of (questions ! j)))
                [0..<length questions]"
  have 1: "process_batch_gemini_pro env n cs questions = Returned ?rs"
    using assms(1,2) by (rule process_batch_gemini_pro_eq)
  have 2: "process_batch_gemini_pro env' n cs' questions = Returned ?rs'"
    using assms(1,2) by (rule process_batch_gemini_pro_eq)
  have 3: "\<forall>j < length questions. j \<noteq> i \<longrightarrow> ?rs' ! j = ?rs ! j"
    using assms(4) by (simp add: process_question_gemini_pro_same_for_item)
  have at: "?rs ! i = process_question_gemini_pro env i (v, u)" using assms(3,5) by simp
  have p1: "frame_paths' = [] \<longrightarrow>
         ?rs ! i = [(''video_id'', v), (''error'', ''No frames found for video ID '' @ v)]"
    unfolding at
    by (intro allI impI, rule process_question_gemini_pro_paths(1) [OF assms(7)], assumption+)
  have p2: "\<forall>e. frame_paths' \<noteq> []
         \<longrightarrow> add_image_parts env frame_paths' [] = Inl e
         \<longrightarrow> ?rs ! i = [(''video_id'', v), (''error'', str e)]"
    unfolding at
    by (intro allI impI, rule process_question_gemini_pro_paths(2) [OF assms(7)], assumption+)
  have p3: "\<forall>image_parts e. frame_paths' \<noteq> []
         \<longrightarrow> add_image_parts env frame_paths' [] = Inr image_parts
         \<longrightarrow> generate_content env i (Text (create_prompt env u) # image_parts) = Inl e
         \<longrightarrow> ?rs ! i = [(''video_id'', v), (''error'', str e)]"
    unfolding at
    by (intro allI impI, rule process_question_gemini_pro_paths(3) [OF assms(7)], assumption+)
  have p4: "\<forall>image_parts e. frame_paths' \<noteq> []
         \<longrightarrow> add_image_parts env frame_paths' [] = Inr image_parts
         \<longrightarrow> generate_content env i (Text (create_prompt env u) # image_parts) = Inr (Inl e)
         \<longrightarrow> ?rs ! i = [(''video_id'', v), (''error'', str e)]"
    unfolding at
    by (intro allI impI, rule process_question_gemini_pro_paths(4) [OF assms(7)], assumption+)
  have p5: "\<forall>image_parts answer. frame_paths' \<noteq> []
         \<longrightarrow> add_image_parts env frame_paths' [] = Inr image_parts
         \<longrightarrow> generate_content env i (Text (create_prompt env u) # image_parts) = Inr (Inr answer)
         \<longrightarrow> ?rs ! i = [(''video_id'', v), (''answer'', answer)]"
    unfolding at
    by (intro allI impI, rule process_question_gemini_pro_paths(5) [OF assms(7)], assumption+)
  note paths = p1 p2 p3 p4 p5
  from 1 2 3 paths show "\<exists>results results'.
            process_batch_gemini_pro env n cs questions = Returned results
            \<and> process_batch_gemini_pro env' n cs' questions = Returned results'
            \<and> length results = length questions \<and> length results' = length questions
            \<and> (\<forall>j < length questions. j \<noteq> i \<longrightarrow> results' ! j = results ! j)
            \<and> (frame_paths' = [] \<longrightarrow>
                  results ! i = [(''video_id'', v), (''error'', ''No frames found for video ID '' @ v)])
            \<and> (\<forall>e. frame_paths' \<noteq> []
                  \<longrightarrow> add_image_parts env frame_paths' [] = Inl e
                  \<longrightarrow> results ! i = [(''video_id'', v), (''error'', str e)])
            \<and> (\<forall>image_parts e. frame_paths' \<noteq> []
                  \<longrightarrow> add_image_parts env frame_paths' [] = Inr image_parts
                  \<longrightarrow> generate_content env i (Text (create_prompt env u) # image_parts) = Inl e
                  \<longrightarrow> results ! i = [(''video_id'', v), (''error'', str e)])
            \<and> (\<forall>image_parts e. frame_paths' \<noteq> []
                  \<longrightarrow> add_image_parts env frame_paths' [] = Inr image_parts
                  \<longrightarrow> generate_content env i (Text (create_prompt env u) # image_parts) = Inr (Inl e)
                  \<longrightarrow> results ! i = [(''video_id'', v), (''error'', str e)])
            \<and> (\<forall>image_parts answer. frame_paths' \<noteq> []
                  \<longrightarrow> add_image_parts env frame_paths' [] = Inr image_parts
                  \<longrightarrow> generate_content env i (Text (create_prompt env u) # image_parts)
                        = Inr (Inr answer)
                  \<longrightarrow> results ! i = [(''video_id'', v), (''answer'', answer)])"
    by (intro exI [of _ ?rs] exI [of _ ?rs']) simp
qed

definition example_env_unreadable :: env where
  "example_env_unreadable =
     example_env_all_frames
       \<lparr>encode_image := (\<lambda>path. if path = ''extracted_frames_8/00001/frame_0001.jpg''
                                  then Inl (OSError ''Permission denied'') else Inr ''QUJD''),
        image_part := (\<lambda>path. if path = ''extracted_frames/00001/frame_0001.jpg''
                                then Inl (OSError ''cannot identify image file'') else Inr ''ABC'')\<rparr>"

text \<open>
  An example: the frame of item \<^verbatim>\<open>00001\<close> cannot be read (the 8-frame script) or is no
  image (\<^verbatim>\<open>gemini_pro.py\<close>); item \<^verbatim>\<open>00002\<close> is answered as in the world where every frame
  is readable.
\<close>

lemma example_same_for_item:
  "same_for_item example_env_unreadable example_env_all_frames 1 (item_of (example_batch ! 1))"
  by (simp add: same_for_item_def example_env_unreadable_def example_env_all_frames_def
      example_env_def example_batch_def item_of_def)

lemma two_results: "length xs = 2 \<Longrightarrow> xs = [xs ! 0, xs ! 1]"
proof -
  assume len: "length xs = 2"
  then obtain a ys where xs: "xs = a # ys" by (cases xs) simp_all
  with len obtain b zs where ys: "ys = b # zs" by (cases ys) simp_all
  with len xs have "zs = []" by simp
  with xs ys show ?thesis by simp
qed

theorem failure_stays_with_its_item_witness:
  "list_all work_item example_batch \<and> (0::nat) < 1 \<and> (0::nat) < length example_batch
   \<and> same_for_item example_env_unreadable example_env_all_frames 1 (item_of (example_batch ! 1))
   \<and> item_of (example_batch ! 0) = (''00001'', ''Q1'')
   \<and> add_frames example_env_unreadable
        (get_frame_paths example_env_unreadable ''extracted_frames_8'' ''00001'')
        [Text (create_prompt example_env_unreadable ''Q1'')] = Inl (OSError ''Permission denied'')
   \<and> process_batch example_env_unreadable 1 [] example_batch =
        Returned [[(''video_id'', ''00001''), (''error'', ''Permission denied'')],
                  [(''video_id'', ''00002''), (''answer'', ''<answer>B</answer>''),
                   (''finish_reason'', ''stop'')]]
   \<and> process_batch example_env_all_frames 1 [1] example_batch =
        Returned [[(''video_id'', ''00001''), (''answer'', ''<answer>B</answer>''),
                   (''finish_reason'', ''stop'')],
                  [(''video_id'', ''00002''), (''answer'', ''<answer>B</answer>''),
                   (''finish_reason'', ''stop'')]]
   \<and> process_batch_gemini_pro example_env_unreadable 1 [] example_batch =
        Returned [[(''video_id'', ''00001''), (''error'', ''cannot identify image file'')],
                  [(''video_id'', ''00002''), (''answer'', ''<answer>B</answer>'')]]
   \<and> process_batch_gemini_pro example_env_all_frames 1 [1] example_batch =
        Returned [[(''video_id'', ''00001''), (''answer'', ''<answer>B</answer>'')],
                  [(''video_id'', ''00002''), (''answer'', ''<answer>B</answer>'')]]"
proof -
  have len: "(0::nat) < length example_batch" by (simp add: example_batch_def)
  have len2: "length example_batch = 2" by (simp add: example_batch_def)
  have item: "item_of (example_batch ! 0) = (''00001'', ''Q1'')"
    by (simp add: example_batch_def item_of_def)
  have others: "\<forall>j < length example_batch. j \<noteq> 0 \<longrightarrow>
      same_for_item example_env_unreadable example_env_all_frames j (item_of (example_batch ! j))"
  proof (intro allI impI)
    fix j :: nat assume "j < length example_batch" "j \<noteq> 0"
    then have "j = 1" unfolding len2 by arith
    with example_same_for_item
    show "same_for_item example_env_unreadable example_env_all_frames j (item_of (example_batch ! j))"
      by (simp only:)
  qed
  have unreadable: "add_frames example_env_unreadable
        (get_frame_paths example_env_unreadable ''extracted_frames_8'' ''00001'')
        [Text (create_prompt example_env_unreadable ''Q1'')] = Inl (OSError ''Permission denied'')"
    by code_simp
  have frames: "get_frame_paths example_env_unreadable ''extracted_frames_8'' ''00001'' \<noteq> []"
    by code_simp
  have ev2: "process_batch example_env_all_frames 1 [1] example_batch =
        Returned [[(''video_id'', ''00001''), (''answer'', ''<answer>B</answer>''),
                   (''finish_reason'', ''stop'')],
                  [(''video_id'', ''00002''), (''answer'', ''<answer>B</answer>''),
                   (''finish_reason'', ''stop'')]]"
    by code_simp
  have ev3: "process_batch_gemini_pro example_env_unreadable 1 [] example_batch =
        Returned [[(''video_id'', ''00001''), (''error'', ''cannot identify image file'')],
                  [(''video_id'', ''00002''), (''answer'', ''<answer>B</answer>'')]]"
    by code_simp
  have ev4: "process_batch_gemini_pro example_env_all_frames 1 [1] example_batch =
        Returned [[(''video_id'', ''00001''), (''answer'', ''<answer>B</answer>'')],
                  [(''video_id'', ''00002''), (''answer'', ''<answer>B</answer>'')]]"
    by code_simp
  note inst = failure_stays_with_its_item
         [OF example_batch_work_items zero_less_one len others item refl refl, of "[]" "[1]"]
  from inst [THEN conjunct1]
  obtain results results' where
    r: "process_batch example_env_unreadable 1 [] example_batch = Returned results"
    and r': "process_batch example_env_all_frames 1 [1] example_batch = Returned results'"
    and lens: "length results = length example_batch"
    and same: "\<forall>j < length example_batch. j \<noteq> 0 \<longrightarrow> results' ! j = results ! j"
    and err: "\<forall>e. get_frame_paths example_env_unreadable ''extracted_frames_8'' ''00001'' \<noteq> []
                  \<longrightarrow> add_frames example_env_unreadable
                        (get_frame_paths example_env_unreadable ''extracted_frames_8'' ''00001'')
                        [Text (create_prompt example_env_unreadable ''Q1'')] = Inl e
                  \<longrightarrow> results ! 0 = [(''video_id'', ''00001''), (''error'', str e)]"
    by (elim exE conjE)
  from err [rule_format, OF frames unreadable]
  have r0: "results ! 0 = [(''video_id'', ''00001''), (''error'', ''Permission denied'')]"
    by simp
  from r' ev2 have "results' = [[(''video_id'', ''00001''), (''answer'', ''<answer>B</answer>''),
                   (''finish_reason'', ''stop'')],
                  [(''video_id'', ''00002''), (''answer'', ''<answer>B</answer>''),
                   (''finish_reason'', ''stop'')]]"
    by simp
  then have "results' ! 1 = [(''video_id'', ''00002''), (''answer'', ''<answer>B</answer>''),
                   (''finish_reason'', ''stop'')]"
    by simp
  moreover have "results' ! 1 = results ! 1"
    using same [rule_format, of 1] unfolding len2 by simp
  ultimately have r1: "results ! 1 = [(''video_id'', ''00002''), (''answer'', ''<answer>B</answer>''),
                   (''finish_reason'', ''stop'')]"
    by simp
  from lens have "length results = 2" unfolding len2 .
  then have "results = [results ! 0, results ! 1]" by (rule two_results)
  then have "results = [[(''video_id'', ''00001''), (''error'', ''Permission denied'')],
                  [(''video_id'', ''00002''), (''answer'', ''<answer>B</answer>''),
                   (''finish_reason'', ''stop'')]]"
    unfolding r0 r1 .
  with r have ev1: "process_batch example_env_unreadable 1 [] example_batch =
        Returned [[(''video_id'', ''00001''), (''error'', ''Permission denied'')],
                  [(''video_id'', ''00002''), (''answer'', ''<answer>B</answer>''),
                   (''finish_reason'', ''stop'')]]"
    by (simp only:)
  show ?thesis
    by (intro conjI example_batch_work_items zero_less_one len example_same_for_item item
          unreadable ev1 ev2 ev3 ev4)
qed

subsection \<open>\<^verbatim>\<open>inference_4o_reasoning.py\<close>\<close>

text \<open>
  The same body with the frame directory \<^verbatim>\<open>extracted_frames\<close>, the handler
  \<^verbatim>\<open>return {"error": str(e)}\<close> and the response
  \<^verbatim>\<open>{"answer": ..., "finish_reason": ...}\<close>: no result has a \<^verbatim>\<open>video_id\<close>.
\<close>

definition process_question_reasoning_head :: "env \<Rightarrow> (string \<times> part list, nat list) head_piece" where
  "process_question_reasoning_head env i video_id question sent =
     (let frame_paths = get_frame_paths env ''extracted_frames'' video_id in
      if frame_paths = [] then
        (Return [(''error'', str (FileNotFoundError (''No frames found for video ID '' @ video_id)))],
         sent)
      else
        (case add_frames env frame_paths [Text (create_prompt env question)] of
           Inl e \<Rightarrow> (Return [(''error'', str e)], sent)
         | Inr content \<Rightarrow> (Suspend (video_id, content), sent @ [i])))"

definition process_question_reasoning_tail :: "env \<Rightarrow> (string \<times> part list, nat list) tail_piece" where
  "process_question_reasoning_tail env i k sent =
     (case k of (video_id, content) \<Rightarrow>
        (case chat_create env i content of
           Inl e \<Rightarrow> ([(''error'', str e)], sent)
         | Inr choices \<Rightarrow>
             (case choices of
                [] \<Rightarrow> ([(''error'', str (IndexError ''list index out of range''))], sent)
              | c # _ \<Rightarrow>
                  ([(''answer'', message_content c), (''finish_reason'', finish_reason c)], sent))))"

definition process_question_reasoning :: "env \<Rightarrow> nat \<Rightarrow> string \<times> string \<Rightarrow> dict" where
  "process_question_reasoning env i item =
     (case item of (video_id, question) \<Rightarrow>
        (case fst (process_question_reasoning_head env i video_id question []) of
           Return d \<Rightarrow> d
         | Suspend k \<Rightarrow> fst (process_question_reasoning_tail env i k [])))"

definition process_batch_reasoning :: "env \<Rightarrow> nat \<Rightarrow> nat list \<Rightarrow> dict list \<Rightarrow> dict list run" where
  "process_batch_reasoning env max_concurrent_requests cs questions =
     (case make_tasks questions of
        Inl e \<Rightarrow> Raised e
      | Inr ts \<Rightarrow>
          gather (process_question_reasoning_head env) (process_question_reasoning_tail env) cs
            (initial max_concurrent_requests ts []))"

text \<open>
  The saving loop of \<^verbatim>\<open>main\<close>:
  \<^verbatim>\<open>for question, result in zip(questions, results): video_id = question['id']; ...\<close>.
  Its value here is the list of the files written, path and content.
\<close>

definition output_path :: "string \<Rightarrow> string" where
  "output_path video_id = ''o1_preview_results0/'' @ video_id @ ''_result.json''"

fun save_results :: "dict list \<Rightarrow> dict list \<Rightarrow> exn + (string \<times> dict) list" where
  "save_results (question # questions) (result # results) =
     (case getitem question ''id'' of
        Inl e \<Rightarrow> Inl e
      | Inr video_id \<Rightarrow>
          (case save_results questions results of
             Inl e \<Rightarrow> Inl e
           | Inr files \<Rightarrow>
               Inr ((output_path video_id, result) # files)))"
| "save_results _ _ = Inr []"

lemma determined_process_question_reasoning:
  "determined (process_question_reasoning_head env) (process_question_reasoning_tail env)
     (process_question_reasoning env)"
  unfolding determined_def
proof (intro allI)
  fix i v u and w :: "nat list"
  have fst_head: "fst (process_question_reasoning_head env i v u w)
                    = fst (process_question_reasoning_head env i v u [])"
    by (simp add: process_question_reasoning_head_def Let_def split: sum.splits)
  have fst_tail: "fst (process_question_reasoning_tail env i k w')
                    = fst (process_question_reasoning_tail env i k [])" for k w'
    by (simp add: process_question_reasoning_tail_def split: prod.splits sum.splits list.splits)
  show "case fst (process_question_reasoning_head env i v u w) of
          Return d \<Rightarrow> d = process_question_reasoning env i (v, u)
        | Suspend k \<Rightarrow>
            \<forall>w'. fst (process_question_reasoning_tail env i k w') = process_question_reasoning env i (v, u)"
  proof (cases "fst (process_question_reasoning_head env i v u [])")
    case (Return d)
    with fst_head show ?thesis by (simp add: process_question_reasoning_def)
  next
    case (Suspend k)
    with fst_head fst_tail show ?thesis by (simp add: process_question_reasoning_def)
  qed
qed

lemma process_batch_reasoning_eq:
  assumes "list_all work_item questions" and "0 < n"
  shows "process_batch_reasoning env n cs questions
           = Returned (map (\<lambda>i. process_question_reasoning env i (item_of (questions ! i)))
                        [0..<length questions])"
proof -
  let ?items = "map item_of questions"
  have mk: "(make_tasks questions :: exn + (string \<times> part list) task list)
              = Inr (map (\<lambda>(v, u). Pending v u) ?items)"
    using assms(1) by (simp add: make_tasks_work_items split_beta)
  have "gather (process_question_reasoning_head env) (process_question_reasoning_tail env) cs
          (initial n (map (\<lambda>(v, u). Pending v u) ?items) [])
        = Returned (map (\<lambda>i. process_question_reasoning env i (?items ! i)) [0..<length ?items])"
    using assms(2) determined_process_question_reasoning by (rule gather_returns)
  with mk show ?thesis by (simp add: process_batch_reasoning_def cong: map_cong)
qed

lemma save_results_work_items:
  "list_all work_item questions \<Longrightarrow> length results = length questions \<Longrightarrow>
     save_results questions results
       = Inr (map (\<lambda>i. (output_path (fst (item_of (questions ! i))), results ! i))
                [0..<length questions])"
proof (induction questions results rule: save_results.induct)
  case (1 question questions result results)
  from "1.prems" have q: "getitem question ''id'' = Inr (fst (item_of question))"
    by (auto simp: work_item_def item_of_def getitem_def)
  from "1.prems" have "list_all work_item questions" "length results = length questions"
    by simp_all
  with "1.IH" [OF q] have ih: "save_results questions results
       = Inr (map (\<lambda>i. (output_path (fst (item_of (questions ! i))), results ! i))
                [0..<length questions])"
    by simp
  have "map (\<lambda>i. (output_path (fst (item_of ((question # questions) ! i))), (result # results) ! i))
          [0..<length (question # questions)]
        = (output_path (fst (item_of question)), result)
          # map (\<lambda>i. (output_path (fst (item_of (questions ! i))), results ! i))
              [0..<length questions]"
    by (simp add: map_upt_Suc del: upt_Suc)
  with q ih show ?case by simp
qed simp_all

subsection \<open>Order and shape of the results\<close>

definition example_env_distinct :: env where
  "example_env_distinct =
     example_env_all_frames
       \<lparr>chat_create := (\<lambda>i content.
          Inr [\<lparr>message_content = (if i = 0 then ''<answer>A</answer>'' else ''<answer>B</answer>''),
                finish_reason = ''stop''\<rparr>])\<rparr>"

text \<open>
  C7. In \<^verbatim>\<open>inference_4o_reasoning.py\<close>, for a batch of work items and a semaphore with
  at least one permit, under every schedule (so in whatever order the calls complete)
  \<^verbatim>\<open>process_batch\<close> returns the results in the order of the input: the \<open>i\<close>-th result
  is what the call of \<^verbatim>\<open>process_question\<close> for the \<open>i\<close>-th work item returns. The loop
  of \<^verbatim>\<open>main\<close> over \<^verbatim>\<open>zip(questions, results)\<close> therefore writes the \<open>i\<close>-th result
  to the file named after the \<open>i\<close>-th identifier.
\<close>

theorem results_in_input_order:
  assumes "list_all work_item questions" and "0 < n"
  shows "\<exists>results. process_batch_reasoning env n cs questions = Returned results
           \<and> length results = length questions
           \<and> (\<forall>i < length questions.
                 results ! i = process_question_reasoning env i (item_of (questions ! i)))
           \<and> save_results questions results
               = Inr (map (\<lambda>i. (output_path (fst (item_of (questions ! i))), results ! i))
                        [0..<length questions])"
proof -
  let ?rs = "map (\<lambda>i. process_question_reasoning env i (item_of (questions ! i)))
               [0..<length questions]"
  have "process_batch_reasoning env n cs questions = Returned ?rs"
    using assms by (rule process_batch_reasoning_eq)
  moreover have "length ?rs = length questions" by simp
  moreover have "\<forall>i < length questions.
      ?rs ! i = process_question_reasoning env i (item_of (questions ! i))" by simp
  moreover have "save_results questions ?rs
      = Inr (map (\<lambda>i. (output_path (fst (item_of (questions ! i))), ?rs ! i)) [0..<length questions])"
    using assms(1) by (rule save_results_work_items) simp
  ultimately show ?thesis by blast
qed

theorem results_in_input_order_witness:
  "list_all work_item example_batch \<and> (0::nat) < 2
   \<and> tasks (exec (process_question_reasoning_head example_env_distinct)
              (process_question_reasoning_tail example_env_distinct) [0, 1, 1]
              (initial 2 [Pending ''00001'' ''Q1'', Pending ''00002'' ''Q2''] []))
      = [Suspended (''00001'', [Text ''Q1'', Image_url ''data:image/jpeg;base64,QUJD'']),
         Finished [(''answer'', ''<answer>B</answer>''), (''finish_reason'', ''stop'')]]
   \<and> process_batch_reasoning example_env_distinct 2 [0, 1, 1] example_batch
      = Returned [[(''answer'', ''<answer>A</answer>''), (''finish_reason'', ''stop'')],
                  [(''answer'', ''<answer>B</answer>''), (''finish_reason'', ''stop'')]]
   \<and> save_results example_batch
        [[(''answer'', ''<answer>A</answer>''), (''finish_reason'', ''stop'')],
         [(''answer'', ''<answer>B</answer>''), (''finish_reason'', ''stop'')]]
      = Inr [(''o1_preview_results0/00001_result.json'',
              [(''answer'', ''<answer>A</answer>''), (''finish_reason'', ''stop'')]),
             (''o1_preview_results0/00002_result.json'',
              [(''answer'', ''<answer>B</answer>''), (''finish_reason'', ''stop'')])]
   \<and> process_question_reasoning example_env_distinct 1 (item_of (example_batch ! 1))
      = [(''answer'', ''<answer>B</answer>''), (''finish_reason'', ''stop'')]"
proof -
  have snap: "tasks (exec (process_question_reasoning_head example_env_distinct)
              (process_question_reasoning_tail example_env_distinct) [0, 1, 1]
              (initial 2 [Pending ''00001'' ''Q1'', Pending ''00002'' ''Q2''] []))
      = [Suspended (''00001'', [Text ''Q1'', Image_url ''data:image/jpeg;base64,QUJD'']),
         Finished [(''answer'', ''<answer>B</answer>''), (''finish_reason'', ''stop'')]]"
    by code_simp
  have ev: "process_batch_reasoning example_env_distinct 2 [0, 1, 1] example_batch
      = Returned [[(''answer'', ''<answer>A</answer>''), (''finish_reason'', ''stop'')],
                  [(''answer'', ''<answer>B</answer>''), (''finish_reason'', ''stop'')]]"
    by code_simp
  have sv: "save_results example_batch
        [[(''answer'', ''<answer>A</answer>''), (''finish_reason'', ''stop'')],
         [(''answer'', ''<answer>B</answer>''), (''finish_reason'', ''stop'')]]
      = Inr [(''o1_preview_results0/00001_result.json'',
              [(''answer'', ''<answer>A</answer>''), (''finish_reason'', ''stop'')]),
             (''o1_preview_results0/00002_result.json'',
              [(''answer'', ''<answer>B</answer>''), (''finish_reason'', ''stop'')])]"
    by code_simp
  have two: "(0::nat) < 2" by simp
  have len: "(1::nat) < length example_batch" by (simp add: example_batch_def)
  from results_in_input_order [OF example_batch_work_items two, of example_env_distinct "[0, 1, 1]"]
  obtain results where
    r: "process_batch_reasoning example_env_distinct 2 [0, 1, 1] example_batch = Returned results"
    and nth: "\<forall>i < length example_batch.
      results ! i = process_question_reasoning example_env_distinct i (item_of (example_batch ! i))"
    by blast
  from r ev have "results = [[(''answer'', ''<answer>A</answer>''), (''finish_reason'', ''stop'')],
                  [(''answer'', ''<answer>B</answer>''), (''finish_reason'', ''stop'')]]"
    by simp
  moreover from nth len have
    "results ! 1 = process_question_reasoning example_env_distinct 1 (item_of (example_batch ! 1))"
    by blast
  ultimately have "process_question_reasoning example_env_distinct 1 (item_of (example_batch ! 1))
      = [(''answer'', ''<answer>B</answer>''), (''finish_reason'', ''stop'')]"
    by simp
  with example_batch_work_items snap ev sv show ?thesis by simp
qed

lemma process_question_reasoning_shape:
  "(\<exists>a f. process_question_reasoning env i (v, u) = [(''answer'', a), (''finish_reason'', f)])
   \<or> (\<exists>m. process_question_reasoning env i (v, u) = [(''error'', m)])"
  by (simp add: process_question_reasoning_def process_question_reasoning_head_def
      process_question_reasoning_tail_def Let_def split: sum.splits list.splits)

text \<open>
  C5, as the spec states it, fails on \<^verbatim>\<open>inference_4o_reasoning.py\<close>: on the example of
  the spec its results are \<^verbatim>\<open>{"answer": ..., "finish_reason": ...}\<close> for the item with
  frames and \<^verbatim>\<open>{"error": ...}\<close> for the item without, and neither has a \<^verbatim>\<open>video_id\<close>.
\<close>

theorem reasoning_results_carry_no_identifier:
  "process_batch_reasoning example_env 1 [] example_batch
     = Returned [[(''answer'', ''<answer>B</answer>''), (''finish_reason'', ''stop'')],
                 [(''error'', ''No frames found for video ID 00002'')]]
   \<and> map_of [(''answer'', ''<answer>B</answer>''), (''finish_reason'', ''stop'')] ''video_id'' = None
   \<and> map_of [(''error'', ''No frames found for video ID 00002'')] ''video_id'' = None"
proof (intro conjI)
  show "process_batch_reasoning example_env 1 [] example_batch
     = Returned [[(''answer'', ''<answer>B</answer>''), (''finish_reason'', ''stop'')],
                 [(''error'', ''No frames found for video ID 00002'')]]"
    by code_simp
qed simp_all

text \<open>
  C5, amended. In the 8-frame script every result of a batch carries the identifier of
  its work item: it is \<^verbatim>\<open>{"video_id", "answer", "finish_reason"}\<close> on success and
  \<^verbatim>\<open>{"video_id", "error"}\<close> on failure, with \<^verbatim>\<open>video_id\<close> the \<^verbatim>\<open>id\<close> of the work item
  at the same position. In \<^verbatim>\<open>inference_4o_reasoning.py\<close> a result is
  \<^verbatim>\<open>{"answer", "finish_reason"}\<close> or \<^verbatim>\<open>{"error"}\<close> and has no identifier; the
  identifier comes from the position: \<^verbatim>\<open>main\<close> pairs the results with the questions
  and names the file of the \<open>i\<close>-th result after the \<open>i\<close>-th \<^verbatim>\<open>id\<close>.
\<close>

theorem results_identified_by_field_or_position:
  assumes "list_all work_item questions" and "0 < n"
  shows "(\<exists>results. process_batch env n cs questions = Returned results
           \<and> length results = length questions
           \<and> (\<forall>i < length questions. \<exists>v. map_of (questions ! i) ''id'' = Some v
                 \<and> ((\<exists>a f. results ! i = [(''video_id'', v), (''answer'', a), (''finish_reason'', f)])
                      \<or> (\<exists>m. results ! i = [(''video_id'', v), (''error'', m)]))))
       \<and> (\<exists>results. process_batch_reasoning env n cs' questions = Returned results
           \<and> length results = length questions
           \<and> (\<forall>i < length questions.
                 (\<exists>a f. results ! i = [(''answer'', a), (''finish_reason'', f)])
                 \<or> (\<exists>m. results ! i = [(''error'', m)]))
           \<and> (\<exists>files. save_results questions results = Inr files
                 \<and> length files = length questions
                 \<and> (\<forall>i < length questions. \<exists>v. map_of (questions ! i) ''id'' = Some v
                       \<and> files ! i = (output_path v, results ! i))))"
proof (intro conjI)
  have wi: "work_item (questions ! i)" if "i < length questions" for i
    using assms(1) that by (simp add: list_all_length)
  have item: "item_of (questions ! i) = (fst (item_of (questions ! i)), snd (item_of (questions ! i)))"
    for i by simp
  let ?rs = "map (\<lambda>i. process_question env i (item_of (questions ! i))) [0..<length questions]"
  have "\<exists>v. map_of (questions ! i) ''id'' = Some v
          \<and> ((\<exists>a f. ?rs ! i = [(''video_id'', v), (''answer'', a), (''finish_reason'', f)])
               \<or> (\<exists>m. ?rs ! i = [(''video_id'', v), (''error'', m)]))"
    if "i < length questions" for i
  proof -
    from process_question_shape
      [of env i "fst (item_of (questions ! i))" "snd (item_of (questions ! i))"] that
    have "(\<exists>a f. ?rs ! i = [(''video_id'', fst (item_of (questions ! i))), (''answer'', a),
                              (''finish_reason'', f)])
        \<or> (\<exists>m. ?rs ! i = [(''video_id'', fst (item_of (questions ! i))), (''error'', m)])"
      by simp
    with work_item_id [OF wi [OF that]] show ?thesis by blast
  qed
  then show "\<exists>results. process_batch env n cs questions = Returned results
           \<and> length results = length questions
           \<and> (\<forall>i < length questions. \<exists>v. map_of (questions ! i) ''id'' = Some v
                 \<and> ((\<exists>a f. results ! i = [(''video_id'', v), (''answer'', a), (''finish_reason'', f)])
                      \<or> (\<exists>m. results ! i = [(''video_id'', v), (''error'', m)])))"
    using process_batch_eq [OF assms, of env cs] by (intro exI [of _ ?rs]) simp
next
  have wi: "work_item (questions ! i)" if "i < length questions" for i
    using assms(1) that by (simp add: list_all_length)
  let ?rs = "map (\<lambda>i. process_question_reasoning env i (item_of (questions ! i)))
               [0..<length questions]"
  let ?files = "map (\<lambda>i. (output_path (fst (item_of (questions ! i))), ?rs ! i))
                  [0..<length questions]"
  have shape: "(\<exists>a f. ?rs ! i = [(''answer'', a), (''finish_reason'', f)])
             \<or> (\<exists>m. ?rs ! i = [(''error'', m)])" if "i < length questions" for i
    using process_question_reasoning_shape
      [of env i "fst (item_of (questions ! i))" "snd (item_of (questions ! i))"] that
    by simp
  have sv: "save_results questions ?rs = Inr ?files"
    using assms(1) by (rule save_results_work_items) simp
  have files: "\<exists>v. map_of (questions ! i) ''id'' = Some v \<and> ?files ! i = (output_path v, ?rs ! i)"
    if "i < length questions" for i
    using work_item_id [OF wi [OF that]] that by simp
  have "\<exists>files. save_results questions ?rs = Inr files
                 \<and> length files = length questions
                 \<and> (\<forall>i < length questions. \<exists>v. map_of (questions ! i) ''id'' = Some v
                       \<and> files ! i = (output_path v, ?rs ! i))"
    using sv files by (intro exI [of _ ?files]) simp
  with shape show "\<exists>results. process_batch_reasoning env n cs' questions = Returned results
           \<and> length results = length questions
           \<and> (\<forall>i < length questions.
                 (\<exists>a f. results ! i = [(''answer'', a), (''finish_reason'', f)])
                 \<or> (\<exists>m. results ! i = [(''error'', m)]))
           \<and> (\<exists>files. save_results questions results = Inr files
                 \<and> length files = length questions
                 \<and> (\<forall>i < length questions. \<exists>v. map_of (questions ! i) ''id'' = Some v
                       \<and> files ! i = (output_path v, results ! i)))"
    using process_batch_reasoning_eq [OF assms, of env cs'] by (intro exI [of _ ?rs]) simp
qed

theorem results_identified_by_field_or_position_witness:
  "list_all work_item example_batch \<and> (0::nat) < 1
   \<and> process_batch example_env 1 [] example_batch =
       Returned
         [[(''video_id'', ''00001''), (''answer'', ''<answer>B</answer>''), (''finish_reason'', ''stop'')],
          [(''video_id'', ''00002''), (''error'', ''No frames found for video ID 00002'')]]
   \<and> (\<exists>results files. process_batch_reasoning example_env 1 [] example_batch = Returned results
         \<and> save_results example_batch results = Inr files
         \<and> length files = length example_batch)
   \<and> save_results example_batch
        [[(''answer'', ''<answer>B</answer>''), (''finish_reason'', ''stop'')],
         [(''error'', ''No frames found for video ID 00002'')]]
      = Inr [(''o1_preview_results0/00001_result.json'',
              [(''answer'', ''<answer>B</answer>''), (''finish_reason'', ''stop'')]),
             (''o1_preview_results0/00002_result.json'',
              [(''error'', ''No frames found for video ID 00002'')])]"
proof -
  have sv: "save_results example_batch
        [[(''answer'', ''<answer>B</answer>''), (''finish_reason'', ''stop'')],
         [(''error'', ''No frames found for video ID 00002'')]]
      = Inr [(''o1_preview_results0/00001_result.json'',
              [(''answer'', ''<answer>B</answer>''), (''finish_reason'', ''stop'')]),
             (''o1_preview_results0/00002_result.json'',
              [(''error'', ''No frames found for video ID 00002'')])]"
    by code_simp
  from results_identified_by_field_or_position
         [OF example_batch_work_items zero_less_one, of example_env "[]" "[]"]
  have "\<exists>results files. process_batch_reasoning example_env 1 [] example_batch = Returned results
         \<and> save_results example_batch results = Inr files
         \<and> length files = length example_batch"
    by blast
  with example_batch_work_items process_batch_example sv show ?thesis by simp
qed

subsection \<open>\<^verbatim>\<open>gemini_video.py\<close>: the cooldown variant\<close>

text \<open>\<^verbatim>\<open>str.zfill(width)\<close>: zeros on the left, after a leading sign.\<close>

definition zfill :: "nat \<Rightarrow> string \<Rightarrow> string" where
  "zfill width s =
     (if width \<le> length s then s
      else (case s of
              [] \<Rightarrow> replicate width (CHR ''0'')
            | c # cs \<Rightarrow>
                if c = CHR ''+'' \<or> c = CHR ''-''
                then c # replicate (width - length s) (CHR ''0'') @ cs
                else replicate (width - length s) (CHR ''0'') @ s))"

text \<open>
  The mutable state of the processor next to its semaphore: \<^verbatim>\<open>self.request_count\<close>, and
  the requests handed to the provider so far.
\<close>

record processor =
  request_count :: nat
  requests_sent :: "nat list"

definition batch_size :: nat where
  "batch_size = 5"

definition sleep_duration :: nat where
  "sleep_duration = 0"

text \<open>The \<^verbatim>\<open>return\<close> statement: \<^verbatim>\<open>response.text\<close> may raise, which goes to the handler.\<close>

definition answer_result :: "string \<Rightarrow> exn + string \<Rightarrow> dict" where
  "answer_result video_id response =
     (case response of
        Inl e \<Rightarrow> error_result video_id e
      | Inr text \<Rightarrow> [(''video_id'', video_id), (''answer'', text)])"

text \<open>
  \<^verbatim>\<open>process_question\<close> up to \<^verbatim>\<open>await asyncio.sleep(self.sleep_duration)\<close>, its only
  suspension point: the blocking call, the counter, and the test
  \<^verbatim>\<open>self.request_count % self.batch_size == 0\<close>. A call that raises leaves the counter
  as it is.
\<close>

definition process_question_gemini_video_head ::
  "env \<Rightarrow> (string \<times> (exn + string), processor) head_piece" where
  "process_question_gemini_video_head env i video_id question self =
     (let video_path = ''gs://tesla_videos/videos/'' @ zfill 5 video_id @ ''.mp4'';
          contents = [Video_uri video_path, Text (create_prompt env question)];
          self1 = self\<lparr>requests_sent := requests_sent self @ [i]\<rparr>
      in case generate_content env i contents of
           Inl e \<Rightarrow> (Return (error_result video_id e), self1)
         | Inr response \<Rightarrow>
             (let self2 = self1\<lparr>request_count := request_count self1 + 1\<rparr> in
              if request_count self2 mod batch_size = 0
              then (Suspend (video_id, response), self2)
              else (Return (answer_result video_id response), self2)))"

text \<open>After the sleep: the \<^verbatim>\<open>return\<close> statement.\<close>

definition process_question_gemini_video_tail ::
  "(string \<times> (exn + string), processor) tail_piece" where
  "process_question_gemini_video_tail i k self =
     (case k of (video_id, response) \<Rightarrow> (answer_result video_id response, self))"

definition batch_snapshot_gemini_video ::
  "env \<Rightarrow> nat \<Rightarrow> nat list \<Rightarrow> dict list \<Rightarrow> exn + (string \<times> (exn + string), processor) loop" where
  "batch_snapshot_gemini_video env max_concurrent_requests cs questions =
     (case make_tasks questions of
        Inl e \<Rightarrow> Inl e
      | Inr ts \<Rightarrow>
          Inr (exec (process_question_gemini_video_head env) process_question_gemini_video_tail cs
                 (initial max_concurrent_requests ts \<lparr>request_count = 0, requests_sent = []\<rparr>)))"

definition six_questions :: "dict list" where
  "six_questions =
     [[(''id'', ''00001''), (''question'', ''Q1'')],
      [(''id'', ''00002''), (''question'', ''Q2'')],
      [(''id'', ''00003''), (''question'', ''Q3'')],
      [(''id'', ''00004''), (''question'', ''Q4'')],
      [(''id'', ''00005''), (''question'', ''Q5'')],
      [(''id'', ''00006''), (''question'', ''Q6'')]]"


text \<open>
  C8, as the spec states it, fails. Six questions, five permits, every call answered.
  After five scheduling decisions the first four tasks are done and the fifth, whose
  call made the counter 5, is suspended in \<^verbatim>\<open>asyncio.sleep\<close> holding its permit. The
  sixth task then runs while the fifth still sleeps: its request reaches the provider
  and it finishes. (This is the order of the asyncio event loop: the sleeping task is
  rescheduled behind the tasks that are ready.) The dispatcher as a whole is not paused.
\<close>

theorem cooldown_does_not_pause_other_tasks:
  "batch_snapshot_gemini_video example_env 5 [0, 0, 0, 0, 0] six_questions =
     Inr \<lparr>sem_value = 4,
          tasks = [Finished [(''video_id'', ''00001''), (''answer'', ''<answer>B</answer>'')],
                   Finished [(''video_id'', ''00002''), (''answer'', ''<answer>B</answer>'')],
                   Finished [(''video_id'', ''00003''), (''answer'', ''<answer>B</answer>'')],
                   Finished [(''video_id'', ''00004''), (''answer'', ''<answer>B</answer>'')],
                   Suspended (''00005'', Inr ''<answer>B</answer>''),
                   Pending ''00006'' ''Q6''],
          world = \<lparr>request_count = 5, requests_sent = [0, 1, 2, 3, 4]\<rparr>\<rparr>
   \<and> batch_snapshot_gemini_video example_env 5 [0, 0, 0, 0, 0, 1] six_questions =
     Inr \<lparr>sem_value = 4,
          tasks = [Finished [(''video_id'', ''00001''), (''answer'', ''<answer>B</answer>'')],
                   Finished [(''video_id'', ''00002''), (''answer'', ''<answer>B</answer>'')],
                   Finished [(''video_id'', ''00003''), (''answer'', ''<answer>B</answer>'')],
                   Finished [(''video_id'', ''00004''), (''answer'', ''<answer>B</answer>'')],
                   Suspended (''00005'', Inr ''<answer>B</answer>''),
                   Finished [(''video_id'', ''00006''), (''answer'', ''<answer>B</answer>'')]],
          world = \<lparr>request_count = 6, requests_sent = [0, 1, 2, 3, 4, 5]\<rparr>\<rparr>"
  by (intro conjI; code_simp)

text \<open>
  C8, amended. A pending task of the cooldown variant that gets a permit makes its
  blocking call. If the call raises, the counter is unchanged and the task returns the
  error record. If the call returns, the counter goes up by one; when it then is a
  multiple of \<^verbatim>\<open>batch_size = 5\<close>, this task, and only this task, suspends in
  \<^verbatim>\<open>asyncio.sleep(sleep_duration)\<close> with \<^verbatim>\<open>sleep_duration = 0\<close>, still holding its
  permit, and otherwise it returns its result and gives the permit back. The other
  tasks are left as they are, and each of them that is not done can run whenever a
  permit is free: they are not paused.
\<close>

theorem cooldown_suspends_only_the_counting_task:
  assumes "i < length (tasks s)" and "tasks s ! i = Pending video_id question"
    and "0 < sem_value s"
    and "s' = step (process_question_gemini_video_head env) process_question_gemini_video_tail i s"
    and "contents = [Video_uri (''gs://tesla_videos/videos/'' @ zfill 5 video_id @ ''.mp4''),
                     Text (create_prompt env question)]"
  shows "(case generate_content env i contents of
            Inl e \<Rightarrow>
              request_count (world s') = request_count (world s)
              \<and> tasks s' ! i = Finished [(''video_id'', video_id), (''error'', str e)]
              \<and> sem_value s' = sem_value s
          | Inr response \<Rightarrow>
              request_count (world s') = request_count (world s) + 1
              \<and> (if request_count (world s') mod 5 = 0
                  then tasks s' ! i = Suspended (video_id, response)
                       \<and> sem_value s' = sem_value s - 1
                  else tasks s' ! i = Finished (answer_result video_id response)
                       \<and> sem_value s' = sem_value s))
       \<and> sleep_duration = 0
       \<and> length (tasks s') = length (tasks s)
       \<and> (\<forall>j < length (tasks s). j \<noteq> i \<longrightarrow> tasks s' ! j = tasks s ! j)
       \<and> (\<forall>j < length (tasks s). j \<noteq> i \<longrightarrow> \<not> is_finished (tasks s ! j) \<longrightarrow> 0 < sem_value s'
              \<longrightarrow> runnable s' j)"
proof -
  have run: "runnable s i"
    using assms(1-3) by (simp add: runnable_def locked_def)
  have others: "\<forall>j < length (tasks s). j \<noteq> i \<longrightarrow> tasks s' ! j = tasks s ! j"
    and len: "length (tasks s') = length (tasks s)"
    and main: "(case generate_content env i contents of
            Inl e \<Rightarrow>
              request_count (world s') = request_count (world s)
              \<and> tasks s' ! i = Finished [(''video_id'', video_id), (''error'', str e)]
              \<and> sem_value s' = sem_value s
          | Inr response \<Rightarrow>
              request_count (world s') = request_count (world s) + 1
              \<and> (if request_count (world s') mod 5 = 0
                  then tasks s' ! i = Suspended (video_id, response)
                       \<and> sem_value s' = sem_value s - 1
                  else tasks s' ! i = Finished (answer_result video_id response)
                       \<and> sem_value s' = sem_value s))"
    using assms
    by (auto simp: step_def locked_def acquire_def release_def Let_def batch_size_def
        process_question_gemini_video_head_def error_result_def split: sum.splits)
  have "runnable s' j"
    if "j < length (tasks s)" "j \<noteq> i" "\<not> is_finished (tasks s ! j)" "0 < sem_value s'" for j
    using that others len
    by (auto simp: runnable_def locked_def is_finished_def split: task.splits)
  with others len main show ?thesis by (simp add: sleep_duration_def)
qed


definition example_state :: "(string \<times> (exn + string), processor) loop" where
  "example_state =
     \<lparr>sem_value = 5,
      tasks = [Finished [(''video_id'', ''00001''), (''answer'', ''<answer>B</answer>'')],
               Finished [(''video_id'', ''00002''), (''answer'', ''<answer>B</answer>'')],
               Finished [(''video_id'', ''00003''), (''answer'', ''<answer>B</answer>'')],
               Finished [(''video_id'', ''00004''), (''answer'', ''<answer>B</answer>'')],
               Pending ''00005'' ''Q5'',
               Pending ''00006'' ''Q6''],
      world = \<lparr>request_count = 4, requests_sent = [0, 1, 2, 3]\<rparr>\<rparr>"

lemma example_state_reached:
  "batch_snapshot_gemini_video example_env 5 [0, 0, 0, 0] six_questions = Inr example_state"
  by code_simp

theorem cooldown_suspends_only_the_counting_task_witness:
  "4 < length (tasks example_state)
   \<and> tasks example_state ! 4 = Pending ''00005'' ''Q5''
   \<and> 0 < sem_value example_state
   \<and> generate_content example_env 4
        [Video_uri (''gs://tesla_videos/videos/'' @ zfill 5 ''00005'' @ ''.mp4''),
         Text (create_prompt example_env ''Q5'')] = Inr (Inr ''<answer>B</answer>'')
   \<and> request_count (world (step (process_question_gemini_video_head example_env)
                              process_question_gemini_video_tail 4 example_state)) = 5
   \<and> tasks (step (process_question_gemini_video_head example_env)
              process_question_gemini_video_tail 4 example_state) ! 4
        = Suspended (''00005'', Inr ''<answer>B</answer>'')
   \<and> sem_value (step (process_question_gemini_video_head example_env)
                  process_question_gemini_video_tail 4 example_state) = 4
   \<and> runnable (step (process_question_gemini_video_head example_env)
                 process_question_gemini_video_tail 4 example_state) 5"
proof -
  let ?s' = "step (process_question_gemini_video_head example_env)
               process_question_gemini_video_tail 4 example_state"
  have h1: "4 < length (tasks example_state)" by (simp add: example_state_def)
  have h2: "tasks example_state ! 4 = Pending ''00005'' ''Q5''" by (simp add: example_state_def)
  have h3: "0 < sem_value example_state" by (simp add: example_state_def)
  have g: "generate_content example_env 4
        [Video_uri (''gs://tesla_videos/videos/'' @ zfill 5 ''00005'' @ ''.mp4''),
         Text (create_prompt example_env ''Q5'')] = Inr (Inr ''<answer>B</answer>'')"
    by (simp add: example_env_def)
  have c: "request_count (world example_state) = 4" "sem_value example_state = 5"
    "length (tasks example_state) = 6" "tasks example_state ! 5 = Pending ''00006'' ''Q6''"
    by (simp_all add: example_state_def)
  note inst = cooldown_suspends_only_the_counting_task [OF h1 h2 h3 refl refl, of example_env]
  from inst g c have 1: "request_count (world ?s') = 5" by simp
  from inst g c 1 have 2: "tasks ?s' ! 4 = Suspended (''00005'', Inr ''<answer>B</answer>'')"
    and 3: "sem_value ?s' = 4"
    by simp_all
  from inst c 3 have 4: "runnable ?s' 5" by (simp add: is_finished_def)
  from h1 h2 h3 g 1 2 3 4 show ?thesis by blast
qed

section \<open>\<^verbatim>\<open>extract_answers.py\<close>: the letter in the answer tag\<close>

























section \<open>\<^verbatim>\<open>choose_majority.py\<close>: the majority answer per identifier\<close>

text \<open>
  What \<^verbatim>\<open>pd.read_csv(file)\<close> gives: it raises, or it gives a table with its column
  names and, for every row, the cells under \<^verbatim>\<open>id\<close> and \<^verbatim>\<open>answer\<close> (looked at only when
  both columns exist). Identifiers are of any linearly ordered type, answers are strings.
\<close>

datatype 'i csv = Unreadable exn | Table "string list" "('i \<times> string) list"

text \<open>
  \<^verbatim>\<open>if id_num not in all_answers: all_answers[id_num] = []\<close> and
  \<^verbatim>\<open>all_answers[id_num].append(answer)\<close>, on a dict kept in insertion order.
\<close>

definition add_row :: "('i \<times> string list) list \<Rightarrow> 'i \<times> string \<Rightarrow> ('i \<times> string list) list" where
  "add_row all_answers row =
     (case row of (id_num, answer) \<Rightarrow>
        (case map_of all_answers id_num of
           None \<Rightarrow> all_answers @ [(id_num, [answer])]
         | Some _ \<Rightarrow>
             map (\<lambda>(k, answers). if k = id_num then (k, answers @ [answer]) else (k, answers))
               all_answers))"

text \<open>One round of the loop over the files: a file that cannot be read or lacks a column is skipped.\<close>

definition add_file :: "('i \<times> string list) list \<Rightarrow> 'i csv \<Rightarrow> ('i \<times> string list) list" where
  "add_file all_answers file =
     (case file of
        Unreadable e \<Rightarrow> all_answers
      | Table columns rows \<Rightarrow>
          if ''id'' \<notin> set columns \<or> ''answer'' \<notin> set columns then all_answers
          else foldl add_row all_answers rows)"

text \<open>
  \<^verbatim>\<open>Counter(answers)\<close>: each answer with its number of occurrences, in the order of the
  first occurrences.
\<close>

definition counter :: "string list \<Rightarrow> (string \<times> nat) list" where
  "counter answers = map (\<lambda>a. (a, count_list answers a)) (rev (remdups (rev answers)))"

text \<open>
  The body of \<^verbatim>\<open>if answers:\<close>: the largest count, the answers that reach it, and the
  least of them in the order of \<^verbatim>\<open>str\<close>.
\<close>

definition majority_answer :: "string list \<Rightarrow> string" where
  "majority_answer answers =
     (let max_count = Max (set (map snd (counter answers)));
          max_answers = map fst (filter (\<lambda>(ans, count). count = max_count) (counter answers))
      in Min (set max_answers))"

text \<open>
  \<^verbatim>\<open>find_majority_answers\<close>. An empty list of results makes a \<^verbatim>\<open>DataFrame\<close> without
  columns, on which \<^verbatim>\<open>sort_values('id')\<close> raises \<^verbatim>\<open>KeyError\<close>.
\<close>

definition find_majority_answers :: "('i::linorder) csv list \<Rightarrow> exn + ('i \<times> string) list" where
  "find_majority_answers csv_files =
     (let all_answers = foldl add_file [] csv_files;
          majority_results =
            map (\<lambda>(id_num, answers). (id_num, majority_answer answers))
              (filter (\<lambda>(id_num, answers). answers \<noteq> []) all_answers)
      in if majority_results = [] then Inl (KeyError ''id'')
         else Inr (sort_key fst majority_results))"

text \<open>The rows that are counted, and the answers collected for one identifier.\<close>

definition usable_rows :: "'i csv list \<Rightarrow> ('i \<times> string) list" where
  "usable_rows csv_files =
     concat (map (\<lambda>file. case file of
                            Unreadable e \<Rightarrow> []
                          | Table columns rows \<Rightarrow>
                              if ''id'' \<in> set columns \<and> ''answer'' \<in> set columns then rows else [])
               csv_files)"

definition answers_of :: "'i \<Rightarrow> ('i \<times> string) list \<Rightarrow> string list" where
  "answers_of k rows = map snd (filter (\<lambda>row. fst row = k) rows)"

definition collects :: "('i \<times> string) list \<Rightarrow> ('i \<times> string list) list \<Rightarrow> bool" where
  "collects rows all_answers =
     (distinct (map fst all_answers)
      \<and> (\<forall>k. map_of all_answers k
                = (if k \<in> fst ` set rows then Some (answers_of k rows) else None)))"

lemma map_of_extend_entry:
  "map_of (map (\<lambda>(k, answers). if k = i then (k, answers @ [a]) else (k, answers)) m) k
     = (if k = i then map_option (\<lambda>answers. answers @ [a]) (map_of m k) else map_of m k)"
  by (induction m) auto

lemma map_fst_extend_entry:
  "map fst (map (\<lambda>(k, answers). if k = i then (k, answers @ [a]) else (k, answers)) m) = map fst m"
  by (induction m) auto

lemma answers_of_snoc:
  "answers_of k (rows @ [(i, a)]) = (if k = i then answers_of k rows @ [a] else answers_of k rows)"
  by (simp add: answers_of_def)

lemma answers_of_absent: "k \<notin> fst ` set rows \<Longrightarrow> answers_of k rows = []"
  by (auto simp: answers_of_def filter_empty_conv)

lemma collects_add_row:
  assumes "collects rows m"
  shows "collects (rows @ [r]) (add_row m r)"
proof -
  obtain i a where r: "r = (i, a)" by (cases r)
  from assms have dist: "distinct (map fst m)"
    and look: "\<And>k. map_of m k = (if k \<in> fst ` set rows then Some (answers_of k rows) else None)"
    by (simp_all add: collects_def)
  show ?thesis
  proof (cases "map_of m i")
    case None
    with look [of i] have absent: "i \<notin> fst ` set rows" by (simp split: if_splits)
    from None have "i \<notin> set (map fst m)" by (simp add: map_of_eq_None_iff)
    with dist have d: "distinct (map fst (m @ [(i, [a])]))" by simp
    have ids: "fst ` set (rows @ [r]) = insert i (fst ` set rows)" by (simp add: r)
    have "map_of (m @ [(i, [a])]) k
            = (if k \<in> fst ` set (rows @ [r]) then Some (answers_of k (rows @ [r])) else None)" for k
    proof (cases "k = i")
      case True
      with None absent show ?thesis
        by (simp add: map_add_def ids r answers_of_snoc answers_of_absent)
    next
      case False
      with look [of k] show ?thesis
        by (simp add: map_add_def ids r answers_of_snoc split: option.splits)
    qed
    with d None show ?thesis by (simp add: collects_def add_row_def r)
  next
    case (Some v)
    with look [of i] have present: "i \<in> fst ` set rows" by (simp split: if_splits)
    let ?m = "map (\<lambda>(k, answers). if k = i then (k, answers @ [a]) else (k, answers)) m"
    from dist have d: "distinct (map fst ?m)" by (simp only: map_fst_extend_entry)
    have ids: "fst ` set (rows @ [r]) = insert i (fst ` set rows)" by (simp add: r)
    have "map_of ?m k
            = (if k \<in> fst ` set (rows @ [r]) then Some (answers_of k (rows @ [r])) else None)" for k
    proof (cases "k = i")
      case True
      with look [of i] present show ?thesis
        by (simp add: map_of_extend_entry ids r answers_of_snoc)
    next
      case False
      with look [of k] show ?thesis
        by (simp add: map_of_extend_entry ids r answers_of_snoc)
    qed
    with d Some show ?thesis by (simp add: collects_def add_row_def r)
  qed
qed

lemma collects_add_rows:
  "collects rows m \<Longrightarrow> collects (rows @ new) (foldl add_row m new)"
proof (induction new arbitrary: rows m)
  case Nil
  then show ?case by simp
next
  case (Cons r new)
  from collects_add_row [OF Cons.prems, of r] have "collects (rows @ [r]) (add_row m r)" .
  from Cons.IH [OF this] show ?case by simp
qed

lemma collects_add_files:
  "collects rows m \<Longrightarrow> collects (rows @ usable_rows files) (foldl add_file m files)"
proof (induction files arbitrary: rows m)
  case Nil
  then show ?case by (simp add: usable_rows_def)
next
  case (Cons f files)
  let ?new = "usable_rows [f]"
  have step: "collects (rows @ ?new) (add_file m f)"
  proof (cases f)
    case (Unreadable e)
    with Cons.prems show ?thesis by (simp add: usable_rows_def add_file_def)
  next
    case (Table columns new)
    show ?thesis
    proof (cases "''id'' \<in> set columns \<and> ''answer'' \<in> set columns")
      case True
      with Table collects_add_rows [OF Cons.prems, of new] show ?thesis
        by (simp add: usable_rows_def add_file_def)
    next
      case False
      with Table Cons.prems show ?thesis by (auto simp: usable_rows_def add_file_def)
    qed
  qed
  have "usable_rows (f # files) = ?new @ usable_rows files" by (simp add: usable_rows_def)
  with Cons.IH [OF step] show ?case by simp
qed

lemma collects_all_answers: "collects (usable_rows files) (foldl add_file [] files)"
  using collects_add_files [of "[]" "[]" files] by (simp add: collects_def)

lemma counts_of_counter:
  "set (map snd (counter answers)) = count_list answers ` set answers"
  by (auto simp: counter_def)

lemma filter_counted:
  "map fst (filter (\<lambda>(ans, count). count = n) (map (\<lambda>a. (a, g a)) xs))
     = filter (\<lambda>a. g a = n) xs"
  by (induction xs) auto

lemma max_answers_of_counter:
  "set (map fst (filter (\<lambda>(ans, count). count = n) (counter answers)))
     = {a \<in> set answers. count_list answers a = n}"
  unfolding counter_def filter_counted by auto

lemma majority_answer_spec:
  assumes "answers \<noteq> []"
  shows "majority_answer answers \<in> set answers"
    and "count_list answers b \<le> count_list answers (majority_answer answers)"
    and "count_list answers b = count_list answers (majority_answer answers)
           \<Longrightarrow> majority_answer answers \<le> b"
proof -
  let ?counts = "count_list answers ` set answers"
  let ?max = "Max ?counts"
  let ?best = "{a \<in> set answers. count_list answers a = ?max}"
  have fin: "finite ?counts" and ne: "?counts \<noteq> {}" using assms by simp_all
  then have "?max \<in> ?counts" by (rule Max_in)
  then have best_ne: "?best \<noteq> {}" by auto
  have best_fin: "finite ?best" by simp
  have maj: "majority_answer answers = Min ?best"
    by (simp add: majority_answer_def Let_def counts_of_counter max_answers_of_counter
        del: set_map)
  from best_fin best_ne have "Min ?best \<in> ?best" by (rule Min_in)
  with maj have in_best: "majority_answer answers \<in> ?best" by simp
  then show member: "majority_answer answers \<in> set answers" by simp
  from in_best have count: "count_list answers (majority_answer answers) = ?max" by simp
  show le: "count_list answers b \<le> count_list answers (majority_answer answers)"
  proof (cases "b \<in> set answers")
    case True
    then have "count_list answers b \<in> ?counts" by simp
    with fin have "count_list answers b \<le> ?max" by (rule Max_ge)
    with count show ?thesis by simp
  next
    case False
    then have "count_list answers b = 0" by (simp add: count_list_0_iff)
    then show ?thesis by simp
  qed
  show "majority_answer answers \<le> b"
    if tie: "count_list answers b = count_list answers (majority_answer answers)"
  proof -
    from member have "count_list answers (majority_answer answers) \<noteq> 0"
      using count_list_0_iff [of answers "majority_answer answers"] by simp
    with tie have "count_list answers b \<noteq> 0" by simp
    then have "b \<in> set answers"
      using count_list_0_iff [of answers b] by simp
    with tie count have "b \<in> ?best" by simp
    with best_fin have "Min ?best \<le> b" by (rule Min_le)
    with maj show ?thesis by simp
  qed
qed

end
